theory Spec2Isabelle
  imports
    Main
    "HOL-Library.Char_ord"
    "HOL-Library.List_Lexorder"
    "HOL-Library.FSet"
    "HOL-Library.Finite_Map"
begin

section \<open>Go strings: the part of package \<^verbatim>\<open>strings\<close> and \<^verbatim>\<open>bytes\<close> the commands use\<close>

text \<open>
  A Go string is a sequence of bytes; it is modelled as \<^typ>\<open>string\<close>, a list of 8-bit
  characters. Go compares strings byte by byte, which is the lexicographic order on
  character lists given by \<^theory_text>\<open>List_Lexorder\<close> over \<^theory_text>\<open>Char_ord\<close>.
\<close>

definition nl :: char where
  "nl = CHR 0x0A"

definition tab :: char where
  "tab = CHR 0x09"

definition cr :: char where
  "cr = CHR 0x0D"

definition dquote :: char where
  "dquote = CHR 0x22"

definition HasPrefix :: "string \<Rightarrow> string \<Rightarrow> bool" where
  "HasPrefix s p = (length p \<le> length s \<and> take (length p) s = p)"

definition HasSuffix :: "string \<Rightarrow> string \<Rightarrow> bool" where
  "HasSuffix s p = (length p \<le> length s \<and> drop (length s - length p) s = p)"

definition TrimSuffix :: "string \<Rightarrow> string \<Rightarrow> string" where
  "TrimSuffix s p = (if HasSuffix s p then take (length s - length p) s else s)"

text \<open>
  \<^verbatim>\<open>strings.ContainsAny(s, chars)\<close>, for a \<open>chars\<close> of ASCII characters only: some byte of
  \<open>s\<close> is one of them.
\<close>

definition ContainsAny :: "string \<Rightarrow> string \<Rightarrow> bool" where
  "ContainsAny s chars = list_ex (\<lambda>c. c \<in> set chars) s"

fun Contains :: "string \<Rightarrow> string \<Rightarrow> bool" where
  "Contains [] sub = (sub = [])"
| "Contains (c # s) sub = (HasPrefix (c # s) sub \<or> Contains s sub)"

text \<open>
  \<^verbatim>\<open>strings.LastIndex(s, sub)\<close>: the greatest index at which \<open>sub\<close> starts in \<open>s\<close>,
  or \<open>-1\<close>. \<^verbatim>\<open>bytes.IndexByte(s, c)\<close>: the least index of the byte \<open>c\<close>, or \<open>-1\<close>.
\<close>

definition LastIndex :: "string \<Rightarrow> string \<Rightarrow> int" where
  "LastIndex s sub =
     (case filter (\<lambda>i. HasPrefix (drop i s) sub) (rev [0 ..< Suc (length s)]) of
        [] \<Rightarrow> - 1
      | i # _ \<Rightarrow> int i)"

definition IndexByte :: "string \<Rightarrow> char \<Rightarrow> int" where
  "IndexByte s c = (if c \<in> set s then int (length (takeWhile (\<lambda>x. x \<noteq> c) s)) else - 1)"

text \<open>
  \<^verbatim>\<open>strings.TrimSpace\<close> removes leading and trailing Unicode white space. In UTF-8 the
  white space code points are the six ASCII ones and the byte sequences listed in
  \<open>unicodeSpaces\<close> (U+0085, U+00A0, U+1680, U+2000 to U+200A, U+2028, U+2029, U+202F,
  U+205F, U+3000). A byte that does not start one of these sequences decodes to a
  code point that is not white space, so trimming stops there.
\<close>

definition asciiSpaces :: "string list" where
  "asciiSpaces = map (\<lambda>c. [c]) [CHR 0x09, CHR 0x0A, CHR 0x0B, CHR 0x0C, CHR 0x0D, CHR 0x20]"

definition unicodeSpaces :: "string list" where
  "unicodeSpaces =
     [[CHR 0xC2, CHR 0x85], [CHR 0xC2, CHR 0xA0], [CHR 0xE1, CHR 0x9A, CHR 0x80]] @
     map (\<lambda>c. [CHR 0xE2, CHR 0x80, c])
       [CHR 0x80, CHR 0x81, CHR 0x82, CHR 0x83, CHR 0x84, CHR 0x85, CHR 0x86, CHR 0x87,
        CHR 0x88, CHR 0x89, CHR 0x8A, CHR 0xA8, CHR 0xA9, CHR 0xAF] @
     [[CHR 0xE2, CHR 0x81, CHR 0x9F], [CHR 0xE3, CHR 0x80, CHR 0x80]]"

definition spaces :: "string list" where
  "spaces = asciiSpaces @ unicodeSpaces"

text \<open>The white space sequence \<open>s\<close> starts with, if any (at most one of them matches).\<close>

definition leadingSpace :: "string list \<Rightarrow> string \<Rightarrow> string option" where
  "leadingSpace sps s = List.find (\<lambda>w. HasPrefix s w) sps"

function trimLeft :: "string list \<Rightarrow> string \<Rightarrow> string" where
  "trimLeft sps s =
     (case leadingSpace sps s of
        None \<Rightarrow> s
      | Some w \<Rightarrow> if w = [] then s else trimLeft sps (drop (length w) s))"
  by pat_completeness auto
termination
proof (relation "measure (\<lambda>(sps, s). length s)")
  show "wf (measure (\<lambda>(sps, s). length s))"
    by simp
next
  fix sps :: "string list" and s w :: string
  assume "leadingSpace sps s = Some w" and "w \<noteq> []"
  then have "HasPrefix s w"
    by (auto simp: leadingSpace_def find_Some_iff)
  with \<open>w \<noteq> []\<close> have "s \<noteq> []"
    by (auto simp: HasPrefix_def)
  with \<open>w \<noteq> []\<close> show "((sps, drop (length w) s), (sps, s)) \<in> measure (\<lambda>(sps, s). length s)"
    by simp
qed

declare trimLeft.simps [simp del]

definition TrimLeftSpace :: "string \<Rightarrow> string" where
  "TrimLeftSpace s = trimLeft spaces s"

text \<open>The trailing white space is found the same way on the reversed string.\<close>

definition TrimRightSpace :: "string \<Rightarrow> string" where
  "TrimRightSpace s = rev (trimLeft (map rev spaces) (rev s))"

definition TrimSpace :: "string \<Rightarrow> string" where
  "TrimSpace s = TrimRightSpace (TrimLeftSpace s)"

text \<open>
  \<^verbatim>\<open>strings.ToLower\<close> on the ASCII letters. The only other code points whose lower case
  is an ASCII letter are U+0130 (to \<open>i\<close>) and U+212A (to \<open>k\<close>); the field names the
  commands compare with (\<open>subject\<close>, \<open>to\<close>, \<open>cc\<close>, \<open>bcc\<close>) contain neither letter, so
  the comparisons come out the same.
\<close>

definition lowerChar :: "char \<Rightarrow> char" where
  "lowerChar c =
     (if CHR ''A'' \<le> c \<and> c \<le> CHR ''Z'' then char_of (of_char c + (32::nat)) else c)"

definition ToLower :: "string \<Rightarrow> string" where
  "ToLower s = map lowerChar s"

section \<open>Package mg: addresses\<close>

text \<open>Go's \<^verbatim>\<open>mail.Address\<close>.\<close>

record mail_Address =
  Name :: string
  Address :: string

text \<open>
  How a run ends other than normally: \<^verbatim>\<open>mg.Die\<close> logs and prints the message and
  exits with status 2; a Go run-time panic aborts the process.
\<close>

datatype fatal = Die string | Panic string

text \<open>
  \<^verbatim>\<open>s[i:j]\<close> for \<open>0 \<le> i \<le> j \<le> len(s)\<close>. Go panics outside this range; the one slice
  expression with computed bounds, in \<^verbatim>\<open>ParseAddress\<close>, is shown to stay inside it
  (lemma \<open>ParseAddress_slice_in_range\<close>).
\<close>

definition slice :: "string \<Rightarrow> nat \<Rightarrow> nat \<Rightarrow> string" where
  "slice s i j = take (j - i) (drop i s)"

text \<open>
  \<^verbatim>\<open>mg.ParseAddress\<close>. The strict parser \<^verbatim>\<open>mail.ParseAddress\<close> of the Go library is the
  parameter \<open>strict\<close>; it returns the parsed address or the text of its error.
\<close>

definition ParseAddress :: "(string \<Rightarrow> string + mail_Address) \<Rightarrow> string \<Rightarrow> string + mail_Address" where
  "ParseAddress strict addr =
     (if \<not> ContainsAny addr (''<>()'' @ [dquote, CHR '' '', tab, cr, nl])
      then Inr \<lparr>Name = [], Address = addr\<rparr>
      else if HasSuffix addr ''>'' \<and> \<not> HasPrefix addr [dquote] \<and> 0 \<le> LastIndex addr ''<''
      then (let i = nat (LastIndex addr ''<'') in
            Inr \<lparr>Name = TrimSpace (slice addr 0 i), Address = slice addr i (length addr - 1)\<rparr>)
      else strict addr)"

text \<open>
  \<^verbatim>\<open>mg.FixLocalAddr\<close> updates the address in place; the model returns the updated
  address. The configured domain \<^verbatim>\<open>mg.Domain\<close> is the first argument.
\<close>

definition FixLocalAddr :: "string \<Rightarrow> mail_Address \<Rightarrow> mail_Address" where
  "FixLocalAddr domain a =
     (if \<not> Contains (Address a) ''@'' then a\<lparr>Address := Address a @ ''@'' @ domain\<rparr> else a)"

definition FixLocalAddrs :: "string \<Rightarrow> mail_Address list \<Rightarrow> mail_Address list" where
  "FixLocalAddrs domain list = map (FixLocalAddr domain) list"

section \<open>Reading standard input line by line\<close>

text \<open>
  Standard input is the bytes still to come and the way the stream ends after them: end
  of file, or a read error with its text.
\<close>

datatype io_end = EOF | ReadError string

record Reader =
  pending :: string
  ending :: io_end

text \<open>
  \<^verbatim>\<open>bufio.Reader.ReadBytes(delim)\<close>: the bytes up to and including the first \<open>delim\<close> and
  no error; when the stream ends before a \<open>delim\<close>, the bytes that were left and the
  reason the stream ended.
\<close>

definition ReadBytes :: "char \<Rightarrow> Reader \<Rightarrow> string \<times> io_end option \<times> Reader" where
  "ReadBytes delim r =
     (if delim \<in> set (pending r)
      then (takeWhile (\<lambda>c. c \<noteq> delim) (pending r) @ [delim], None,
            r\<lparr>pending := tl (dropWhile (\<lambda>c. c \<noteq> delim) (pending r))\<rparr>)
      else (pending r, Some (ending r), r\<lparr>pending := []\<rparr>))"

text \<open>A read that returns bytes shortens the input; a read without error returns bytes.\<close>

lemma ReadBytes_shorter:
  assumes "ReadBytes d r = (line, err, r')" and "line \<noteq> []"
  shows "length (pending r') < length (pending r)"
proof (cases "d \<in> set (pending r)")
  case True
  then have "dropWhile (\<lambda>c. c \<noteq> d) (pending r) \<noteq> []"
    by simp
  moreover have "length (dropWhile (\<lambda>c. c \<noteq> d) (pending r)) \<le> length (pending r)"
    by (rule length_dropWhile_le)
  moreover from True assms have "pending r' = tl (dropWhile (\<lambda>c. c \<noteq> d) (pending r))"
    by (auto simp: ReadBytes_def)
  ultimately show ?thesis
    by (cases "dropWhile (\<lambda>c. c \<noteq> d) (pending r)") auto
next
  case False
  with assms show ?thesis
    by (auto simp: ReadBytes_def)
qed

lemma ReadBytes_no_error:
  assumes "ReadBytes d r = (line, None, r')"
  shows "line \<noteq> []"
  using assms by (auto simp: ReadBytes_def split: if_splits)

text \<open>The text \<^verbatim>\<open>%v\<close> prints for the error of a read.\<close>

fun errText :: "io_end option \<Rightarrow> string" where
  "errText None = ''<nil>''"
| "errText (Some EOF) = ''EOF''"
| "errText (Some (ReadError e)) = e"

section \<open>mailgun-sendmail: copying the message from standard input\<close>

text \<open>
  The body of the loop of \<^verbatim>\<open>msgCopy\<close> for a line that is neither the end of the input
  nor the terminating dot: \<open>hdr\<close> is the flag of the same name, \<open>w\<close> the bytes written
  so far. The line is not empty here.
\<close>

definition copyLine :: "bool \<Rightarrow> string \<Rightarrow> string \<Rightarrow> bool \<times> string" where
  "copyLine hdr w line =
     (let boundary = (hdr \<and> hd line \<noteq> CHR '' '' \<and> hd line \<noteq> tab \<and> IndexByte line (CHR '':'') < 0);
          hdr' = (if boundary then False else hdr);
          w1 = (if boundary \<and> hd line \<noteq> nl then w @ [nl] else w);
          w2 = w1 @ line;
          w3 = (if last line \<noteq> nl then w2 @ [nl] else w2)
      in (hdr', w3))"

text \<open>
  \<^verbatim>\<open>msgCopy(w, r)\<close>, with the globals \<^verbatim>\<open>mg.IsTTY\<close> and \<^verbatim>\<open>iflag\<close> as arguments. The result is
  the bytes written to \<open>w\<close> and the reader as the loop leaves it, or the fatal error.
\<close>

function msgCopyLoop :: "bool \<Rightarrow> bool \<Rightarrow> bool \<Rightarrow> string \<Rightarrow> Reader \<Rightarrow> fatal + (string \<times> Reader)" where
  "msgCopyLoop tty iflag hdr w r =
     (case ReadBytes nl r of (line, err, r') \<Rightarrow>
        if line = [] \<and> err = Some EOF then Inr (w, r')
        else if line = [] then Inl (Die (''reading message: '' @ errText err))
        else if tty \<and> \<not> iflag \<and> length line = 2 \<and> line ! 0 = CHR ''.'' \<and> line ! 1 = nl
        then Inr (w, r')
        else (case copyLine hdr w line of (hdr', w') \<Rightarrow> msgCopyLoop tty iflag hdr' w' r'))"
  by pat_completeness auto
termination
proof (relation "measure (\<lambda>(tty, iflag, hdr, w, r). length (pending r))", goal_cases)
  case 1
  show ?case by simp
next
  case (2 tty iflag hdr w r line y err r' hdr' w')
  then have "ReadBytes nl r = (line, err, r')"
    by simp
  with \<open>line \<noteq> []\<close> have "length (pending r') < length (pending r)"
    by (rule ReadBytes_shorter [rotated])
  then show ?case by simp
qed

declare msgCopyLoop.simps [simp del]

definition msgCopy :: "bool \<Rightarrow> bool \<Rightarrow> Reader \<Rightarrow> fatal + (string \<times> Reader)" where
  "msgCopy tty iflag r = msgCopyLoop tty iflag True [] r"

text \<open>
  The kinds of line the loop of \<^verbatim>\<open>msgCopy\<close> tells apart. A complete line is what
  \<^verbatim>\<open>ReadBytes\<close> returns before the end of the input: bytes other than the line break,
  then the line break. A line looks like a header line when it starts with a space
  or a tab or holds a colon. The terminating dot counts on a terminal, unless \<^verbatim>\<open>-i\<close> is
  given.
\<close>

definition completeLine :: "string \<Rightarrow> bool" where
  "completeLine l = (l \<noteq> [] \<and> last l = nl \<and> nl \<notin> set (butlast l))"

definition headerLike :: "string \<Rightarrow> bool" where
  "headerLike l = (hd l = CHR '' '' \<or> hd l = tab \<or> CHR '':'' \<in> set l)"

definition dotLine :: "bool \<Rightarrow> bool \<Rightarrow> string \<Rightarrow> bool" where
  "dotLine tty idot l = (tty \<and> \<not> idot \<and> l = [CHR ''.'', nl])"

section \<open>The Go library functions the commands call\<close>

text \<open>
  \<^verbatim>\<open>mail.Header\<close> is a Go map from field name to the list of the field's values; a key
  that is absent reads as the empty list.
\<close>

type_synonym Header = "(string, string list) fmap"

definition hvalues :: "Header \<Rightarrow> string \<Rightarrow> string list" where
  "hvalues h k = (case fmlookup h k of None \<Rightarrow> [] | Some vs \<Rightarrow> vs)"

text \<open>
  The functions of the Go standard library whose code is not part of the repository
  are parameters of the model, collected in one record. Each returns its result or
  the text of its error.
  \<^item> \<open>mail_ParseAddress\<close>, \<open>mail_ParseAddressList\<close>: the strict address parsers;
  \<^item> \<open>mail_ReadMessage\<close>: the header and the body of the message in a byte stream;
  \<^item> \<open>Header_AddressList\<close>: the addresses of a header field;
  \<^item> \<open>Address_String\<close>: the text of an address;
  \<^item> \<open>filepath_Base\<close>: the last element of a path;
  \<^item> \<open>json_Unmarshal\<close>: the fields \<open>message\<close> and \<open>id\<close> decoded from a JSON text;
  \<^item> \<open>json_Compact\<close>: the JSON text without insignificant space.
\<close>

record golib =
  mail_ParseAddress :: "string \<Rightarrow> string + mail_Address"
  mail_ParseAddressList :: "string \<Rightarrow> string + mail_Address list"
  mail_ReadMessage :: "string \<Rightarrow> string + (Header \<times> string)"
  Header_AddressList :: "Header \<Rightarrow> string \<Rightarrow> string + mail_Address list"
  Address_String :: "mail_Address \<Rightarrow> string"
  filepath_Base :: "string \<Rightarrow> string"
  json_Unmarshal :: "string \<Rightarrow> string + (string \<times> string)"
  json_Compact :: "string \<Rightarrow> string"

section \<open>Package mg: the request to the API\<close>

text \<open>
  The parts written to the multipart writer, in order: a form field with its value, or
  a form file with its field name, its file name and its content.
\<close>

datatype part = FormField string string | FormFile string string string

text \<open>
  What \<^verbatim>\<open>startPost\<close> and the writes after it hand to \<^verbatim>\<open>runPost\<close>: the sender and the
  recipients (for the log), the URL, and the parts of the body.
\<close>

record post =
  post_from :: mail_Address
  post_to :: "mail_Address list"
  post_endpoint :: string
  post_parts :: "part list"

definition endpointURL :: "string \<Rightarrow> string \<Rightarrow> string" where
  "endpointURL domain endpoint = ''https://api.mailgun.net/v3/'' @ domain @ ''/'' @ endpoint"

text \<open>
  \<^verbatim>\<open>mg.MailMIME(from, to, mime)\<close>. The writes go to a pipe whose read end is never
  closed, so \<^verbatim>\<open>check\<close> finds no error.
\<close>

definition MailMIME :: "golib \<Rightarrow> string \<Rightarrow> mail_Address \<Rightarrow> mail_Address list \<Rightarrow> string \<Rightarrow> post" where
  "MailMIME L domain from rcpts mime =
     (let from' = FixLocalAddr domain from;
          rcpts' = FixLocalAddrs domain rcpts
      in \<lparr>post_from = from', post_to = rcpts',
          post_endpoint = endpointURL domain ''messages.mime'',
          post_parts = map (\<lambda>a. FormField ''to'' (Address_String L a)) rcpts'
                       @ [FormFile ''message'' ''mime.msg'' mime]\<rparr>)"

section \<open>mailgun-sendmail: the main function\<close>

record sendmail_flags =
  Bflag :: string
  bflag :: string
  dflag :: "string list"
  Fflag :: string
  fflag :: string
  iflag :: bool
  tflag :: bool
  vflag :: bool
  args :: "string list"

text \<open>
  The process: \<^verbatim>\<open>$USER\<close>, the domain and the key read from the configuration, whether
  standard input is a terminal, and standard input.
\<close>

record process =
  USER :: string
  Domain :: string
  APIKey :: string
  IsTTY :: bool
  stdin :: Reader

text \<open>The loop over \<^verbatim>\<open>dflag\<close>; the pair is \<^verbatim>\<open>(mg.DebugHTTP, mg.DisableMail)\<close>.\<close>

fun debugValues :: "string list \<Rightarrow> bool \<times> bool \<Rightarrow> fatal + (bool \<times> bool)" where
  "debugValues [] g = Inr g"
| "debugValues (v # vs) (dbg, dis) =
     (if v = ''http'' then debugValues vs (True, dis)
      else if v = ''nosend'' then debugValues vs (dbg, True)
      else Inl (Die (''unknown debug value -d '' @ v)))"

text \<open>The loop \<^verbatim>\<open>to.Set(arg)\<close> over the command line arguments.\<close>

fun setTo :: "golib \<Rightarrow> string list \<Rightarrow> mail_Address list \<Rightarrow> fatal + mail_Address list" where
  "setTo L [] rcpts = Inr rcpts"
| "setTo L (arg # rest) rcpts =
     (case ParseAddress (mail_ParseAddress L) arg of
        Inl e \<Rightarrow> Inl (Die (''cannot parse To: address: '' @ e))
      | Inr a \<Rightarrow> setTo L rest (rcpts @ [a]))"

text \<open>The sender of mailgun-sendmail: \<^verbatim>\<open>-F\<close>, \<^verbatim>\<open>-f\<close> or \<^verbatim>\<open>$USER\<close>, then \<^verbatim>\<open>FixLocalAddr\<close>.\<close>

definition sendmailFrom :: "process \<Rightarrow> sendmail_flags \<Rightarrow> fatal + mail_Address" where
  "sendmailFrom P F =
     (if fflag F \<noteq> [] then Inr (FixLocalAddr (Domain P) \<lparr>Name = Fflag F, Address = fflag F\<rparr>)
      else if USER P = []
      then Inl (Die ''cannot determine From address: -f/-r not used, and $USER not set'')
      else Inr (FixLocalAddr (Domain P) \<lparr>Name = Fflag F, Address = USER P\<rparr>))"

text \<open>The loop over the keys \<open>To\<close>, \<open>Cc\<close>, \<open>Bcc\<close> under \<^verbatim>\<open>-t\<close>.\<close>

fun harvest :: "golib \<Rightarrow> Header \<Rightarrow> string list \<Rightarrow> mail_Address list \<Rightarrow> fatal + mail_Address list" where
  "harvest L h [] rcpts = Inr rcpts"
| "harvest L h (key # keys) rcpts =
     (if hvalues h key = [] then harvest L h keys rcpts
      else case Header_AddressList L h key of
             Inl e \<Rightarrow> Inl (Die (''cannot parse '' @ key @ '': list: '' @ e))
           | Inr addrs \<Rightarrow> harvest L h keys (rcpts @ addrs))"

definition recipients :: "golib \<Rightarrow> bool \<Rightarrow> Header \<Rightarrow> mail_Address list \<Rightarrow> fatal + mail_Address list" where
  "recipients L t h rcpts =
     (if t then
        (case harvest L h [''To'', ''Cc'', ''Bcc''] rcpts of
           Inl e \<Rightarrow> Inl e
         | Inr rcpts' \<Rightarrow>
             if rcpts' = [] then Inl (Die ''no recipients found in message'') else Inr rcpts')
      else Inr rcpts)"

text \<open>
  The header as it is sent: a \<open>From\<close> field is added when there is none, the \<open>Bcc\<close>
  field is deleted.
\<close>

definition outHeader :: "golib \<Rightarrow> mail_Address \<Rightarrow> Header \<Rightarrow> Header" where
  "outHeader L from h =
     fmdrop ''Bcc''
       (if hvalues h ''From'' = [] then fmupd ''From'' [Address_String L from] h else h)"

text \<open>
  The header block written to the buffer \<open>hdr\<close>: the keys of the map, sorted, and for
  each key one line for each of its values; then an empty line.
\<close>

definition fieldLine :: "string \<Rightarrow> string \<Rightarrow> string" where
  "fieldLine k v = k @ '': '' @ v @ [nl]"

definition renderHeader :: "Header \<Rightarrow> string" where
  "renderHeader h =
     concat (map (\<lambda>k. concat (map (fieldLine k) (hvalues h k))) (sorted_list_of_fset (fmdom h)))
     @ [nl]"

text \<open>
  The same block as a sequence of fields, name and value, in the order of the lines
  (lemma \<open>renderHeader_lines\<close>).
\<close>

definition headerLines :: "Header \<Rightarrow> (string \<times> string) list" where
  "headerLines h =
     concat (map (\<lambda>k. map (\<lambda>v. (k, v)) (hvalues h k)) (sorted_list_of_fset (fmdom h)))"

text \<open>
  The part of \<^verbatim>\<open>main\<close> after \<^verbatim>\<open>mail.ReadMessage\<close>: \<open>t\<close> is \<^verbatim>\<open>tflag\<close>, \<open>from\<close> the sender,
  \<open>rcpts\<close> the addresses given on the command line, \<open>h\<close> and \<open>body\<close> the header and the
  body of the message read.
\<close>

definition relay ::
  "golib \<Rightarrow> string \<Rightarrow> bool \<Rightarrow> mail_Address \<Rightarrow> mail_Address list \<Rightarrow> Header \<Rightarrow> string \<Rightarrow> fatal + post" where
  "relay L domain t from rcpts h body =
     (case recipients L t h rcpts of
        Inl e \<Rightarrow> Inl e
      | Inr rcpts' \<Rightarrow>
          Inr (MailMIME L domain from rcpts' (renderHeader (outHeader L from h) @ body)))"

text \<open>
  \<^verbatim>\<open>main\<close> of mailgun-sendmail, after the flags are parsed. \<^verbatim>\<open>msgCopy\<close> runs in a goroutine
  that feeds \<^verbatim>\<open>mail.ReadMessage\<close> through a pipe; the model runs it to its end first. The
  result is the values of \<^verbatim>\<open>mg.DebugHTTP\<close> and \<^verbatim>\<open>mg.DisableMail\<close> and the request.
\<close>

definition sendmail_main :: "golib \<Rightarrow> process \<Rightarrow> sendmail_flags \<Rightarrow> fatal + ((bool \<times> bool) \<times> post)" where
  "sendmail_main L P F =
     (case debugValues (dflag F) (False, False) of
        Inl e \<Rightarrow> Inl e
      | Inr g \<Rightarrow>
     if bflag F \<noteq> ''m'' then Inl (Die ''only sendmail -bm is supported'')
     else if args F = [] \<and> \<not> tflag F then Inl (Die ''no delivery addresses given'')
     else
     (case setTo L (args F) [] of
        Inl e \<Rightarrow> Inl e
      | Inr rcpts \<Rightarrow>
     (case sendmailFrom P F of
        Inl e \<Rightarrow> Inl e
      | Inr from \<Rightarrow>
     (case msgCopy (IsTTY P) (iflag F) (stdin P) of
        Inl e \<Rightarrow> Inl e
      | Inr (stream, r') \<Rightarrow>
     (case mail_ReadMessage L stream of
        Inl e \<Rightarrow> Inl (Die (''reading message header: '' @ e))
      | Inr (h, body) \<Rightarrow>
     (case relay L (Domain P) (tflag F) from rcpts h body of
        Inl e \<Rightarrow> Inl e
      | Inr p \<Rightarrow> Inr (g, p)))))))"

section \<open>Package mg: structured messages\<close>

record Message =
  From :: mail_Address
  To :: "mail_Address list"
  CC :: "mail_Address list"
  BCC :: "mail_Address list"
  Subject :: string
  Body :: string
  Attachments :: "string list"

text \<open>
  The loop over \<^verbatim>\<open>msg.Attachments\<close>. The file system \<open>fs\<close> gives for a file name its
  content, or the text of the error of opening or reading it.
\<close>

fun attach :: "golib \<Rightarrow> (string \<Rightarrow> string + string) \<Rightarrow> string list \<Rightarrow> fatal + part list" where
  "attach L fs [] = Inr []"
| "attach L fs (file # files) =
     (case fs file of
        Inl e \<Rightarrow> Inl (Die (''attaching file: '' @ e))
      | Inr content \<Rightarrow>
          (case attach L fs files of
             Inl e \<Rightarrow> Inl e
           | Inr ps \<Rightarrow> Inr (FormFile ''attachment'' (filepath_Base L file) content # ps)))"

text \<open>
  \<^verbatim>\<open>mg.Mail(msg)\<close>. \<^verbatim>\<open>FixLocalAddr\<close> changes an address at most once, so it does not
  matter whether two of the lists share an address.
\<close>

definition Mail :: "golib \<Rightarrow> string \<Rightarrow> (string \<Rightarrow> string + string) \<Rightarrow> Message \<Rightarrow> fatal + post" where
  "Mail L domain fs msg =
     (let from' = FixLocalAddr domain (From msg);
          to' = FixLocalAddrs domain (To msg);
          cc' = FixLocalAddrs domain (CC msg);
          bcc' = FixLocalAddrs domain (BCC msg);
          allTo = to' @ cc' @ bcc';
          fields = [FormField ''from'' (Address_String L from')]
                   @ map (\<lambda>a. FormField ''to'' (Address_String L a)) to'
                   @ map (\<lambda>a. FormField ''cc'' (Address_String L a)) cc'
                   @ map (\<lambda>a. FormField ''bcc'' (Address_String L a)) bcc'
                   @ (if Subject msg \<noteq> [] then [FormField ''subject'' (Subject msg)] else [])
                   @ [FormField ''text'' (Body msg)]
      in case attach L fs (Attachments msg) of
           Inl e \<Rightarrow> Inl e
         | Inr files \<Rightarrow>
             Inr \<lparr>post_from = from', post_to = allTo,
                  post_endpoint = endpointURL domain ''messages'',
                  post_parts = fields @ files\<rparr>)"

section \<open>Package mg: the HTTP exchange\<close>

text \<open>
  The pipe between the multipart writer and \<^verbatim>\<open>runPost\<close>, seen from its read end:
  \<open>conduit\<close> is the sequence of byte blocks that the calls of \<^verbatim>\<open>Read\<close> still to come
  return, one block a call, before end of file. \<open>total\<close> is the field of the
  \<^verbatim>\<open>countingReader\<close> wrapped around the same pipe (an \<^verbatim>\<open>int64\<close>; a payload is far
  shorter than \<open>2^63\<close> bytes, so it is an unbounded integer here).
\<close>

record session =
  conduit :: "string list"
  total :: int

text \<open>\<^verbatim>\<open>body.Read\<close>: the next block, or end of file.\<close>

definition bodyRead :: "session \<Rightarrow> string option \<times> session" where
  "bodyRead s =
     (case conduit s of
        [] \<Rightarrow> (None, s)
      | b # bs \<Rightarrow> (Some b, s\<lparr>conduit := bs\<rparr>))"

text \<open>\<^verbatim>\<open>countingReader.Read\<close>: reads from the pipe and adds the number of bytes read.\<close>

definition crRead :: "session \<Rightarrow> string option \<times> session" where
  "crRead s =
     (case bodyRead s of
        (None, s') \<Rightarrow> (None, s')
      | (Some b, s') \<Rightarrow> (Some b, s'\<lparr>total := total s' + int (length b)\<rparr>))"

text \<open>\<^verbatim>\<open>io.Copy(ioutil.Discard, body)\<close>: reads the pipe itself until end of file.\<close>

function copyDiscard :: "session \<Rightarrow> session" where
  "copyDiscard s =
     (case bodyRead s of
        (None, s') \<Rightarrow> s'
      | (Some b, s') \<Rightarrow> copyDiscard s')"
  by pat_completeness auto
termination
  by (relation "measure (\<lambda>s. length (conduit s))")
     (auto simp: bodyRead_def split: list.splits)

text \<open>
  Reading the request body, which is the \<^verbatim>\<open>countingReader\<close>, until end of file: what
  \<^verbatim>\<open>httputil.DumpRequest\<close> and the HTTP client do. The bytes read are collected in \<open>acc\<close>.
\<close>

function readAllCounted :: "string \<Rightarrow> session \<Rightarrow> string \<times> session" where
  "readAllCounted acc s =
     (case crRead s of
        (None, s') \<Rightarrow> (acc, s')
      | (Some b, s') \<Rightarrow> readAllCounted (acc @ b) s')"
  by pat_completeness auto
termination
  by (relation "measure (\<lambda>(acc, s). length (conduit s))")
     (auto simp: crRead_def bodyRead_def split: list.splits)

declare copyDiscard.simps [simp del] readAllCounted.simps [simp del]

record http_request =
  req_url :: string
  req_content_type :: string
  req_auth :: "string \<times> string"
  req_body :: string

text \<open>
  A response: \<open>resp_body\<close> is what reading the body returns and \<open>resp_err\<close> the error
  that reading it ends with, if any.
\<close>

record http_response =
  StatusCode :: int
  Status :: string
  resp_body :: string
  resp_err :: "string option"

text \<open>
  The world \<^verbatim>\<open>runPost\<close> talks to: whether \<^verbatim>\<open>http.NewRequest\<close> rejects the URL, the
  dumps of \<^verbatim>\<open>httputil\<close>, and the answer of the network to a request.
\<close>

record web =
  http_NewRequest :: "string \<Rightarrow> string option"
  httputil_DumpRequest :: "http_request \<Rightarrow> string + string"
  httputil_DumpResponse :: "http_response \<Rightarrow> string + string"
  http_Do :: "http_request \<Rightarrow> string + http_response"

record settings =
  DebugHTTP :: bool
  DisableMail :: bool
  Verbose :: bool

text \<open>The line written to the log after a successful delivery.\<close>

record log_line =
  log_user :: string
  log_from :: mail_Address
  log_to :: "mail_Address list"
  log_len :: int
  log_resp :: string

text \<open>
  What a run of \<^verbatim>\<open>runPost\<close> that reaches \<^verbatim>\<open>c <- 1\<close> leaves behind: the counter and the
  blocks still in the pipe, the requests sent to the network, the text written to
  standard error and the lines written to the log.
\<close>

record run =
  run_total :: int
  run_unread :: "string list"
  run_calls :: "http_request list"
  run_stderr :: "string list"
  run_log :: "log_line list"

text \<open>
  The part of \<^verbatim>\<open>runPost\<close> from \<^verbatim>\<open>ioutil.ReadAll(resp.Body)\<close> on. \<open>data\<close> and \<open>err\<close> are the
  results of \<^verbatim>\<open>ReadAll\<close>, \<open>s\<close> the pipe and the counter, \<open>calls\<close> and \<open>out\<close> the requests
  sent and the text written to standard error so far.
\<close>

definition handleResponse ::
  "settings \<Rightarrow> process \<Rightarrow> golib \<Rightarrow> mail_Address \<Rightarrow> mail_Address list \<Rightarrow> http_response \<Rightarrow>
   string \<Rightarrow> string option \<Rightarrow> session \<Rightarrow> http_request list \<Rightarrow> string list \<Rightarrow> fatal + run" where
  "handleResponse G P L from rcpts resp data err s calls out =
     (if StatusCode resp \<noteq> 200
      then Inl (Die (''sending mail: '' @ Status resp @ [nl] @ data))
      else case err of
        Some e \<Rightarrow> Inl (Die (''sending mail: '' @ e @ [nl] @ data))
      | None \<Rightarrow>
          (case json_Unmarshal L data of
             Inl e \<Rightarrow> Inl (Die (''sending mail: invalid JSON response: '' @ e @ [nl] @ data))
           | Inr (message, ident) \<Rightarrow>
               Inr \<lparr>run_total = total s, run_unread = conduit s, run_calls = calls,
                    run_stderr = out @ (if IsTTY P \<or> Verbose G
                                        then [''mailgun: '' @ message @ [nl]] else []),
                    run_log = [\<lparr>log_user = USER P, log_from = from, log_to = rcpts,
                                log_len = total s, log_resp = json_Compact L data\<rparr>]\<rparr>))"

text \<open>
  The request \<^verbatim>\<open>runPost\<close> builds: a POST to the endpoint with the content type of the
  multipart body and basic authentication for the user \<open>api\<close>.
\<close>

definition request :: "process \<Rightarrow> string \<Rightarrow> string \<Rightarrow> string \<Rightarrow> http_request" where
  "request P endpoint bodytype payload =
     \<lparr>req_url = endpoint, req_content_type = bodytype, req_auth = (''api'', APIKey P),
      req_body = payload\<rparr>"

text \<open>
  \<^verbatim>\<open>runPost(from, to, endpoint, bodytype, body, c)\<close>; \<open>blocks\<close> is what the pipe \<open>body\<close>
  delivers. With \<^verbatim>\<open>DebugHTTP\<close>, \<^verbatim>\<open>DumpRequest\<close> reads the whole body through the counting
  reader and leaves a copy in the request, and \<^verbatim>\<open>DumpResponse\<close> does the same with the
  body of the response, returning the error of reading it. Without it, the HTTP client
  reads the body through the counting reader; it is taken to read it to its end.
\<close>

definition runPost ::
  "settings \<Rightarrow> process \<Rightarrow> golib \<Rightarrow> web \<Rightarrow> mail_Address \<Rightarrow> mail_Address list \<Rightarrow> string \<Rightarrow> string \<Rightarrow>
   string list \<Rightarrow> fatal + run" where
  "runPost G P L W from rcpts endpoint bodytype blocks =
     (let s0 = \<lparr>conduit = blocks, total = 0\<rparr>;
          req = request P endpoint bodytype
      in case http_NewRequest W endpoint of
        Some e \<Rightarrow> Inl (Die (''creating mailgun API request: '' @ e))
      | None \<Rightarrow>
     (case (if DebugHTTP G
            then (case readAllCounted [] s0 of (payload, s1) \<Rightarrow>
                    (case httputil_DumpRequest W (req payload) of
                       Inl e \<Rightarrow> Inl (Die (''dumping request: '' @ e))
                     | Inr dump \<Rightarrow> Inr (Some payload, s1, [dump])))
            else Inr (None, s0, [])) of
        Inl e \<Rightarrow> Inl e
      | Inr (saved, s1, out1) \<Rightarrow>
     if DisableMail G
     then (let s2 = copyDiscard s1
           in Inr \<lparr>run_total = total s2, run_unread = conduit s2, run_calls = [],
                   run_stderr = out1 @ [''not sending mail (disabled)'' @ [nl]],
                   run_log = []\<rparr>)
     else
     (case (case saved of
              Some payload \<Rightarrow> (payload, s1)
            | None \<Rightarrow> readAllCounted [] s1) of (payload, s2) \<Rightarrow>
     (case http_Do W (req payload) of
        Inl e \<Rightarrow> Inl (Die (''sending mail: '' @ e))
      | Inr resp \<Rightarrow>
     (case (if DebugHTTP G
            then (case resp_err resp of
                    Some e \<Rightarrow> Inl (Die (''dumping response: '' @ e))
                  | None \<Rightarrow>
                      (case httputil_DumpResponse W resp of
                         Inl e \<Rightarrow> Inl (Die (''dumping response: '' @ e))
                       | Inr dump \<Rightarrow> Inr (out1 @ [dump])))
            else Inr out1) of
        Inl e \<Rightarrow> Inl e
      | Inr out2 \<Rightarrow>
          handleResponse G P L from rcpts resp (resp_body resp)
            (if DebugHTTP G then None else resp_err resp) s2 [req payload] out2)))))"

section \<open>mailgun-mail: the main function\<close>

text \<open>
  The flags of mailgun-mail, with the prefix \<open>m_\<close> to keep them apart from those of
  mailgun-sendmail. \<open>m_bcc\<close> and \<open>m_cc\<close> are the address lists that the flag parser
  has filled from \<^verbatim>\<open>-b\<close> and \<^verbatim>\<open>-c\<close>.
\<close>

record mail_flags =
  m_Eflag :: bool
  m_dflag :: bool
  m_nflag :: bool
  m_tflag :: bool
  m_vflag :: bool
  m_aflag :: "string list"
  m_bcc :: "mail_Address list"
  m_cc :: "mail_Address list"
  m_rflag :: "string list"
  m_sflag :: "string list"
  m_args :: "string list"

text \<open>
  The variables \<^verbatim>\<open>to\<close>, \<^verbatim>\<open>cc\<close>, \<^verbatim>\<open>bcc\<close>, \<^verbatim>\<open>subject\<close>, \<^verbatim>\<open>body\<close> and the buffered reader
  \<^verbatim>\<open>b\<close> of \<^verbatim>\<open>main\<close>.
\<close>

record draft =
  c_to :: "mail_Address list"
  c_cc :: "mail_Address list"
  c_bcc :: "mail_Address list"
  c_subject :: string
  c_body :: string
  c_in :: Reader

text \<open>
  The loop under \<^verbatim>\<open>-t\<close>. The result is the variables after the loop and whether the loop
  was left by \<^verbatim>\<open>goto Send\<close>. In the \<^verbatim>\<open>default\<close> case of the switch \<^verbatim>\<open>list\<close> stays \<^verbatim>\<open>nil\<close>
  and control reaches the statements after the switch: the value is parsed as an address
  list, and the assignment through \<^verbatim>\<open>list\<close> panics.
\<close>

function headerLoop :: "golib \<Rightarrow> bool \<Rightarrow> draft \<Rightarrow> fatal + (bool \<times> draft)" where
  "headerLoop L tty s =
     (case ReadBytes nl (c_in s) of (line, err, r') \<Rightarrow>
        if line = [] \<and> err = Some EOF then Inr (False, s\<lparr>c_in := r'\<rparr>)
        else if line = [] \<and> err \<noteq> None then Inl (Die (''reading message: '' @ errText err))
        else if IndexByte line (CHR '':'') < 0 then
          (if line \<noteq> [] \<and> hd line \<noteq> nl then
             (if hd line = CHR ''.'' \<and> (length line = 1 \<or> length line = 2 \<and> line ! 1 = nl) \<and> tty
              then Inr (True, s\<lparr>c_in := r'\<rparr>)
              else Inr (False, s\<lparr>c_body := c_body s @ line, c_in := r'\<rparr>))
           else Inr (False, s\<lparr>c_in := r'\<rparr>))
        else
          (let i = nat (IndexByte line (CHR '':''));
               key = slice line 0 i;
               val = TrimSpace (slice line (i + 1) (length line));
               field = ToLower key
           in if field = ''subject'' then headerLoop L tty (s\<lparr>c_subject := val, c_in := r'\<rparr>)
              else
                (case mail_ParseAddressList L val of
                   Inl e \<Rightarrow>
                     Inl (Die (''cannot parse ''
                               @ (if field = ''to'' then ''To'' else if field = ''cc'' then ''CC''
                                  else if field = ''bcc'' then ''BCC'' else key)
                               @ '': list: '' @ e))
                 | Inr addrs \<Rightarrow>
                     if field = ''to'' then headerLoop L tty (s\<lparr>c_to := c_to s @ addrs, c_in := r'\<rparr>)
                     else if field = ''cc'' then headerLoop L tty (s\<lparr>c_cc := c_cc s @ addrs, c_in := r'\<rparr>)
                     else if field = ''bcc'' then headerLoop L tty (s\<lparr>c_bcc := c_bcc s @ addrs, c_in := r'\<rparr>)
                     else Inl (Panic ''invalid memory address or nil pointer dereference''))))"
  by pat_completeness auto
termination
proof (relation "measure (\<lambda>(L, tty, s). length (pending (c_in s)))", goal_cases)
  case 1
  show ?case by simp
next
  case (2 L tty s line y err r')
  then have "ReadBytes nl (c_in s) = (line, err, r')" and "line \<noteq> []"
    by (auto simp: IndexByte_def split: if_splits)
  then have "length (pending r') < length (pending (c_in s))"
    by (rule ReadBytes_shorter)
  then show ?case by simp
next
  case (3 L tty s line y err r' i key val field addrs)
  then have "ReadBytes nl (c_in s) = (line, err, r')" and "line \<noteq> []"
    by (auto simp: IndexByte_def split: if_splits)
  then have "length (pending r') < length (pending (c_in s))"
    by (rule ReadBytes_shorter)
  then show ?case by simp
next
  case (4 L tty s line y err r' i key val field addrs)
  then have "ReadBytes nl (c_in s) = (line, err, r')" and "line \<noteq> []"
    by (auto simp: IndexByte_def split: if_splits)
  then have "length (pending r') < length (pending (c_in s))"
    by (rule ReadBytes_shorter)
  then show ?case by simp
next
  case (5 L tty s line y err r' i key val field addrs)
  then have "ReadBytes nl (c_in s) = (line, err, r')" and "line \<noteq> []"
    by (auto simp: IndexByte_def split: if_splits)
  then have "length (pending r') < length (pending (c_in s))"
    by (rule ReadBytes_shorter)
  then show ?case by simp
qed

text \<open>The loop that reads the message from a terminal, up to a line with a single dot.\<close>

function ttyLoop :: "draft \<Rightarrow> fatal + draft" where
  "ttyLoop s =
     (case ReadBytes nl (c_in s) of (line, err, r') \<Rightarrow>
        if line = [] \<and> err = Some EOF then Inr (s\<lparr>c_in := r'\<rparr>)
        else if line = [] \<and> err \<noteq> None then Inl (Die (''reading message: '' @ errText err))
        else if length line = 2 \<and> line ! 0 = CHR ''.'' \<and> line ! 1 = nl then Inr (s\<lparr>c_in := r'\<rparr>)
        else ttyLoop (s\<lparr>c_body := c_body s @ line, c_in := r'\<rparr>))"
  by pat_completeness auto
termination
proof (relation "measure (\<lambda>s. length (pending (c_in s)))", goal_cases)
  case 1
  show ?case by simp
next
  case (2 s line y err r')
  then have rd: "ReadBytes nl (c_in s) = (line, err, r')"
    by simp
  have "line \<noteq> []"
  proof (cases err)
    case None
    with rd show ?thesis
      by (auto dest: ReadBytes_no_error)
  next
    case (Some e)
    with 2 show ?thesis
      by auto
  qed
  with rd have "length (pending r') < length (pending (c_in s))"
    by (rule ReadBytes_shorter)
  then show ?case by simp
qed

declare headerLoop.simps [simp del] ttyLoop.simps [simp del]

text \<open>\<^verbatim>\<open>io.Copy(&body, b)\<close>: the rest of the input, up to end of file.\<close>

definition copyRest :: "draft \<Rightarrow> fatal + draft" where
  "copyRest s =
     (case ending (c_in s) of
        EOF \<Rightarrow> Inr (s\<lparr>c_body := c_body s @ pending (c_in s), c_in := (c_in s)\<lparr>pending := []\<rparr>\<rparr>)
      | ReadError e \<Rightarrow> Inl (Die (''reading message: '' @ e)))"

text \<open>
  The part of \<^verbatim>\<open>main\<close> from \<^verbatim>\<open>if tflag\<close> to the label \<^verbatim>\<open>Send\<close>: the header lines under
  \<^verbatim>\<open>-t\<close>, then the text of the message.
\<close>

definition ingest :: "golib \<Rightarrow> bool \<Rightarrow> bool \<Rightarrow> draft \<Rightarrow> fatal + draft" where
  "ingest L tty t s =
     (case (if t then headerLoop L tty s else Inr (False, s)) of
        Inl e \<Rightarrow> Inl e
      | Inr (send, s1) \<Rightarrow>
          if send then Inr s1
          else if tty then ttyLoop s1
          else copyRest s1)"

text \<open>The sender of mailgun-mail: the last \<^verbatim>\<open>-r\<close>, or \<^verbatim>\<open>$USER\<close>.\<close>

definition mailFrom :: "golib \<Rightarrow> process \<Rightarrow> mail_flags \<Rightarrow> fatal + mail_Address" where
  "mailFrom L P F =
     (if m_rflag F \<noteq> [] then
        (case ParseAddress (mail_ParseAddress L) (last (m_rflag F)) of
           Inl e \<Rightarrow> Inl (Die (''cannot parse From: address: '' @ e))
         | Inr a \<Rightarrow> Inr a)
      else if USER P = []
      then Inl (Die ''cannot determine From address: -r not used, and $USER not set'')
      else Inr \<lparr>Name = [], Address = USER P\<rparr>)"

text \<open>
  The subject: the last \<^verbatim>\<open>-s\<close>, or on a terminal the first line of the input. The
  result \<open>None\<close> is the return without sending when the input is empty.
\<close>

definition mailSubject :: "process \<Rightarrow> mail_flags \<Rightarrow> fatal + (string \<times> Reader) option" where
  "mailSubject P F =
     (if m_sflag F \<noteq> [] then Inr (Some (last (m_sflag F), stdin P))
      else if IsTTY P then
        (case ReadBytes nl (stdin P) of (line, err, r') \<Rightarrow>
           if line = [] \<and> err = Some EOF then Inr None
           else if line = [] \<and> err \<noteq> None then Inl (Die (''reading subject: '' @ errText err))
           else Inr (Some (TrimSuffix line [nl], r')))
      else Inr (Some ([], stdin P)))"

text \<open>
  \<^verbatim>\<open>main\<close> of mailgun-mail, after the flags are parsed, up to the message handed to
  \<^verbatim>\<open>mg.Mail\<close>; \<open>None\<close> when it returns without sending.
\<close>

definition compose :: "golib \<Rightarrow> process \<Rightarrow> mail_flags \<Rightarrow> fatal + Message option" where
  "compose L P F =
     (if m_args F = [] \<and> \<not> m_tflag F then Inl (Die ''mail reading is not supported'')
      else
      (case setTo L (m_args F) [] of
         Inl e \<Rightarrow> Inl e
       | Inr rcpts \<Rightarrow>
      (case mailFrom L P F of
         Inl e \<Rightarrow> Inl e
       | Inr from \<Rightarrow>
      (case mailSubject P F of
         Inl e \<Rightarrow> Inl e
       | Inr None \<Rightarrow> Inr None
       | Inr (Some (subject, r)) \<Rightarrow>
      (case ingest L (IsTTY P) (m_tflag F)
              \<lparr>c_to = rcpts, c_cc = m_cc F, c_bcc = m_bcc F, c_subject = subject,
               c_body = [], c_in = r\<rparr> of
         Inl e \<Rightarrow> Inl e
       | Inr s \<Rightarrow>
           Inr (Some \<lparr>From = from, To = c_to s, CC = c_cc s, BCC = c_bcc s,
                      Subject = c_subject s, Body = c_body s, Attachments = m_aflag F\<rparr>))))))"

definition mail_main ::
  "golib \<Rightarrow> process \<Rightarrow> (string \<Rightarrow> string + string) \<Rightarrow> mail_flags \<Rightarrow> fatal + post option" where
  "mail_main L P fs F =
     (case compose L P F of
        Inl e \<Rightarrow> Inl e
      | Inr None \<Rightarrow> Inr None
      | Inr (Some msg) \<Rightarrow>
          (case Mail L (Domain P) fs msg of
             Inl e \<Rightarrow> Inl e
           | Inr p \<Rightarrow> Inr (Some p)))"

section \<open>Values for the concrete instances\<close>

text \<open>
  A stand-in for the library, a process and a network, used only to run the model on
  concrete inputs: an address prints as its mailbox in angle brackets, the address
  list of a header field is its first value taken as one mailbox, and the network
  answers every request with status 500 and a plain text.
\<close>

definition exampleLib :: golib where
  "exampleLib =
     \<lparr>mail_ParseAddress = (\<lambda>s. Inl ''mail: no angle-addr''),
      mail_ParseAddressList = (\<lambda>s. Inr [\<lparr>Name = [], Address = s\<rparr>]),
      mail_ReadMessage = (\<lambda>s. Inl ''malformed MIME header line''),
      Header_AddressList =
        (\<lambda>h k. case hvalues h k of
                  [] \<Rightarrow> Inl ''mail: header not in message''
                | v # vs \<Rightarrow> Inr [\<lparr>Name = [], Address = v\<rparr>]),
      Address_String = (\<lambda>a. ''<'' @ Address a @ ''>''),
      filepath_Base = (\<lambda>f. f),
      json_Unmarshal = (\<lambda>s. Inl ''invalid character''),
      json_Compact = (\<lambda>s. s)\<rparr>"

definition exampleProcess :: process where
  "exampleProcess =
     \<lparr>USER = ''alice'', Domain = ''example.com'', APIKey = ''key-0'', IsTTY = False,
      stdin = \<lparr>pending = [], ending = EOF\<rparr>\<rparr>"

definition exampleResponse :: http_response where
  "exampleResponse =
     \<lparr>StatusCode = 500, Status = ''500 Internal Server Error'', resp_body = ''try later'',
      resp_err = None\<rparr>"

definition exampleWeb :: web where
  "exampleWeb =
     \<lparr>http_NewRequest = (\<lambda>u. None),
      httputil_DumpRequest = (\<lambda>r. Inr (req_body r)),
      httputil_DumpResponse = (\<lambda>r. Inr (resp_body r)),
      http_Do = (\<lambda>r. Inr exampleResponse)\<rparr>"



text \<open>
  A sender, a header with a \<open>To\<close> and a \<open>Bcc\<close> field, a structured message with one
  \<open>bcc\<close> address, and the request the raw path builds from the header.
\<close>

definition exampleFrom :: mail_Address where
  "exampleFrom = \<lparr>Name = [], Address = ''alice@example.com''\<rparr>"

definition exampleHeader :: Header where
  "exampleHeader = fmupd ''Bcc'' [''carol''] (fmupd ''To'' [''bob@example.com''] fmempty)"

definition exampleMessage :: Message where
  "exampleMessage =
     \<lparr>From = exampleFrom, To = [\<lparr>Name = [], Address = ''bob''\<rparr>], CC = [],
      BCC = [\<lparr>Name = [], Address = ''carol''\<rparr>], Subject = ''hi'', Body = ''hello\<newline>'',
      Attachments = []\<rparr>"

definition examplePost :: post where
  "examplePost =
     \<lparr>post_from = exampleFrom,
      post_to = [\<lparr>Name = [], Address = ''bob@example.com''\<rparr>,
                 \<lparr>Name = [], Address = ''carol@example.com''\<rparr>],
      post_endpoint = ''https://api.mailgun.net/v3/example.com/messages.mime'',
      post_parts = [FormField ''to'' ''<bob@example.com>'', FormField ''to'' ''<carol@example.com>'',
        FormFile ''message'' ''mime.msg''
          ''From: <alice@example.com>\<newline>To: bob@example.com\<newline>\<newline>hello\<newline>'']\<rparr>"

section \<open>Properties of the string functions\<close>

lemma HasPrefix_single: "HasPrefix s [c] \<longleftrightarrow> (s \<noteq> [] \<and> hd s = c)"
  by (cases s) (auto simp: HasPrefix_def)

lemma HasSuffix_single: "HasSuffix s [c] \<longleftrightarrow> (s \<noteq> [] \<and> last s = c)"
proof (cases s rule: rev_cases)
  case Nil
  then show ?thesis by (simp add: HasSuffix_def)
next
  case (snoc ys y)
  then show ?thesis by (auto simp: HasSuffix_def)
qed

lemma Contains_single: "Contains s [c] \<longleftrightarrow> c \<in> set s"
  by (induction s) (auto simp: HasPrefix_def)

lemma ContainsAny_iff: "ContainsAny s chars \<longleftrightarrow> (\<exists>c \<in> set s. c \<in> set chars)"
  by (auto simp: ContainsAny_def list_ex_iff)

text \<open>The index \<open>LastIndex\<close> returns for a single byte.\<close>

lemma LastIndex_single_absent: "c \<notin> set s \<Longrightarrow> LastIndex s [c] = - 1"
proof -
  assume a: "c \<notin> set s"
  have "\<And>i. \<not> HasPrefix (drop i s) [c]"
  proof
    fix i assume "HasPrefix (drop i s) [c]"
    then have "drop i s \<noteq> []" and "hd (drop i s) = c"
      by (auto simp: HasPrefix_single)
    then have "c \<in> set (drop i s)"
      by (metis list.set_sel(1))
    then have "c \<in> set s"
      by (rule in_set_dropD)
    with a show False by simp
  qed
  then have "filter (\<lambda>i. HasPrefix (drop i s) [c]) (rev [0 ..< Suc (length s)]) = []"
    by (simp add: filter_empty_conv del: upt_Suc)
  then show ?thesis
    by (simp add: LastIndex_def del: upt_Suc)
qed

lemma filter_rev_upt_Cons:
  "filter P (rev [0 ..< n]) = i # rest \<Longrightarrow> i < n \<and> P i \<and> (\<forall>j. i < j \<and> j < n \<longrightarrow> \<not> P j)"
proof (induction n)
  case 0
  then show ?case by simp
next
  case (Suc n)
  show ?case
  proof (cases "P n")
    case True
    with Suc.prems have "i = n" by simp
    with True show ?thesis by auto
  next
    case False
    with Suc.prems have "filter P (rev [0 ..< n]) = i # rest" by simp
    then have "i < n \<and> P i \<and> (\<forall>j. i < j \<and> j < n \<longrightarrow> \<not> P j)"
      by (rule Suc.IH)
    with False show ?thesis
      by (auto simp: less_Suc_eq)
  qed
qed

lemma HasPrefix_drop_single: "HasPrefix (drop i s) [c] \<longleftrightarrow> (i < length s \<and> s ! i = c)"
  by (auto simp: HasPrefix_single hd_drop_conv_nth)

lemma LastIndex_single_present:
  assumes "c \<in> set s"
  shows "\<exists>i < length s. LastIndex s [c] = int i \<and> s ! i = c \<and> c \<notin> set (drop (Suc i) s)"
proof -
  let ?P = "\<lambda>i. HasPrefix (drop i s) [c]"
  from assms obtain k where k: "k < length s" "s ! k = c"
    by (auto simp: in_set_conv_nth)
  then have "k \<in> set (filter ?P (rev [0 ..< Suc (length s)]))"
    by (simp add: HasPrefix_drop_single del: upt_Suc)
  then obtain i rest where f: "filter ?P (rev [0 ..< Suc (length s)]) = i # rest"
    by (cases "filter ?P (rev [0 ..< Suc (length s)])") auto
  then have i: "?P i" and later: "\<forall>j. i < j \<and> j < Suc (length s) \<longrightarrow> \<not> ?P j"
    using filter_rev_upt_Cons [OF f] by auto
  from i have "i < length s" and "s ! i = c"
    by (auto simp: HasPrefix_drop_single)
  moreover from f have "LastIndex s [c] = int i"
    by (simp add: LastIndex_def del: upt_Suc)
  moreover have "c \<notin> set (drop (Suc i) s)"
  proof
    assume "c \<in> set (drop (Suc i) s)"
    then obtain m where "m < length s - Suc i" and "drop (Suc i) s ! m = c"
      by (auto simp: in_set_conv_nth)
    then have "Suc i + m < length s" and "s ! (Suc i + m) = c"
      by auto
    then have "?P (Suc i + m)"
      by (simp add: HasPrefix_drop_single)
    with later \<open>Suc i + m < length s\<close> show False
      by auto
  qed
  ultimately show ?thesis
    by auto
qed

text \<open>
  The slice expressions of \<^verbatim>\<open>ParseAddress\<close> are within bounds: where the address ends
  with \<open>>\<close> and holds a \<open><\<close>, the last \<open><\<close> is before the last byte.
\<close>

lemma ParseAddress_slice_in_range:
  assumes "HasSuffix addr ''>''" and "0 \<le> LastIndex addr ''<''"
  shows "nat (LastIndex addr ''<'') \<le> length addr - 1 \<and> length addr - 1 \<le> length addr"
proof -
  have "CHR ''<'' \<in> set addr"
  proof (rule ccontr)
    assume "CHR ''<'' \<notin> set addr"
    then have "LastIndex addr ''<'' = - 1"
      by (rule LastIndex_single_absent)
    with assms(2) show False by simp
  qed
  then obtain i where "i < length addr" and "LastIndex addr ''<'' = int i"
    using LastIndex_single_present by blast
  then show ?thesis by simp
qed

text \<open>
  What \<^verbatim>\<open>ParseAddress\<close> returns on its second path: the mailbox is the text from the last
  \<open><\<close>, that byte included, up to the final \<open>>\<close>.
\<close>

lemma ParseAddress_bracket:
  assumes "HasSuffix addr ''>''" and "\<not> HasPrefix addr [dquote]" and "CHR ''<'' \<in> set addr"
  shows "\<exists>i < length addr - 1.
           addr ! i = CHR ''<'' \<and> CHR ''<'' \<notin> set (drop (Suc i) addr) \<and>
           ParseAddress strict addr =
             Inr \<lparr>Name = TrimSpace (take i addr),
                  Address = CHR ''<'' # take (length addr - 1 - Suc i) (drop (Suc i) addr)\<rparr>"
proof -
  from assms(3) obtain i where i: "i < length addr" "LastIndex addr ''<'' = int i"
      "addr ! i = CHR ''<''" "CHR ''<'' \<notin> set (drop (Suc i) addr)"
    using LastIndex_single_present by blast
  from assms(1) have ne: "addr \<noteq> []" and l: "last addr = CHR ''>''"
    by (auto simp: HasSuffix_single)
  have "i \<noteq> length addr - 1"
  proof
    assume "i = length addr - 1"
    with i(3) ne have "last addr = CHR ''<''"
      by (simp add: last_conv_nth)
    with l show False by simp
  qed
  with i(1) have lt: "i < length addr - 1"
    by simp
  have any: "ContainsAny addr (''<>()'' @ [dquote, CHR '' '', tab, cr, nl])"
    using assms(3) by (auto simp: ContainsAny_iff)
  have "drop i addr = CHR ''<'' # drop (Suc i) addr"
    using i(1) i(3) by (metis Cons_nth_drop_Suc)
  then have "slice addr i (length addr - 1)
      = CHR ''<'' # take (length addr - 1 - Suc i) (drop (Suc i) addr)"
    using lt by (simp add: slice_def take_Cons')
  with any assms(1,2) i(2) have "ParseAddress strict addr =
      Inr \<lparr>Name = TrimSpace (take i addr),
           Address = CHR ''<'' # take (length addr - 1 - Suc i) (drop (Suc i) addr)\<rparr>"
    by (simp add: ParseAddress_def slice_def)
  with lt i(3,4) show ?thesis
    by blast
qed

section \<open>Properties of the address functions\<close>

text \<open>
  Claim C3. For an input that ends with \<open>>\<close>, does not start with a double quote and
  contains a \<open><\<close>, the parser is to return the text before the last \<open><\<close>, trimmed, as
  the display name and the text between that \<open><\<close> and the final \<open>>\<close>, without the
  angle brackets, as the mailbox. On \<open>Foo (Bar) <baz@quux.com>\<close>, the example in the
  comment of the source, the parser succeeds and the name is as claimed, but the
  mailbox it returns is \<open><baz@quux.com\<close>: the slice starts at the index of the \<open><\<close>
  and not after it (in general, lemma \<open>ParseAddress_bracket\<close>).
\<close>

theorem ParseAddress_bracket_keeps_angle:
  "ParseAddress strict ''Foo (Bar) <baz@quux.com>'' =
     Inr \<lparr>Name = ''Foo (Bar)'', Address = ''<baz@quux.com''\<rparr>"
  by code_simp

text \<open>
  Claim C10. For the empty string the parser succeeds on its first path (the string
  holds none of the special characters) and returns an address whose display name and
  mailbox are both empty.
\<close>

theorem ParseAddress_empty:
  "ParseAddress strict [] = Inr \<lparr>Name = [], Address = []\<rparr>"
  by (simp add: ParseAddress_def ContainsAny_def)

text \<open>
  Claim C4, as stated: after one application to a mailbox without \<open>@\<close>, a second
  application appends the suffix again. It does not: the mailbox now holds an \<open>@\<close>, and
  the test at the head of \<^verbatim>\<open>FixLocalAddr\<close> leaves it alone.
\<close>

theorem FixLocalAddr_twice_counterexample:
  "\<not> Contains (Address \<lparr>Name = [], Address = ''bob''\<rparr>) ''@'' \<and>
   Address (FixLocalAddr ''example.com'' \<lparr>Name = [], Address = ''bob''\<rparr>) = ''bob@example.com'' \<and>
   Address (FixLocalAddr ''example.com''
              (FixLocalAddr ''example.com'' \<lparr>Name = [], Address = ''bob''\<rparr>))
     \<noteq> ''bob@example.com@example.com''"
  by (simp add: FixLocalAddr_def HasPrefix_def)

text \<open>
  Claim C4, amended. For every address whose mailbox lacks \<open>@\<close>, one application yields
  the mailbox followed by \<open>@\<close> and the domain, once, and leaves the display name alone;
  a second application changes nothing.
\<close>

theorem FixLocalAddr_once_then_fixed:
  assumes "\<not> Contains (Address a) ''@''"
  shows "Address (FixLocalAddr d a) = Address a @ ''@'' @ d
       \<and> Name (FixLocalAddr d a) = Name a
       \<and> FixLocalAddr d (FixLocalAddr d a) = FixLocalAddr d a"
  using assms by (simp add: FixLocalAddr_def Contains_single)

theorem FixLocalAddr_once_then_fixed_witness:
  "\<not> Contains (Address \<lparr>Name = ''Bob'', Address = ''bob''\<rparr>) ''@'' \<and>
   Address (FixLocalAddr ''example.com'' \<lparr>Name = ''Bob'', Address = ''bob''\<rparr>) = ''bob@example.com'' \<and>
   FixLocalAddr ''example.com'' (FixLocalAddr ''example.com'' \<lparr>Name = ''Bob'', Address = ''bob''\<rparr>)
     = \<lparr>Name = ''Bob'', Address = ''bob@example.com''\<rparr>"
proof -
  have h: "\<not> Contains (Address \<lparr>Name = ''Bob'', Address = ''bob''\<rparr>) ''@''"
    by (simp add: HasPrefix_def)
  from FixLocalAddr_once_then_fixed [OF h, of "''example.com''"] h show ?thesis
    by (simp add: FixLocalAddr_def HasPrefix_def)
qed

lemma FixLocalAddr_idem: "FixLocalAddr d (FixLocalAddr d a) = FixLocalAddr d a"
  by (simp add: FixLocalAddr_def Contains_single)

section \<open>Properties of the line ingestion\<close>

text \<open>
  Claim C6. The input is the four lines \<open>Subject: hi\<close>, an empty line, \<open>hello\<close> and a
  single dot, on a terminal, with the dot not ignored; \<open>rest\<close> is whatever follows.
  \<^item> \<^verbatim>\<open>msgCopy\<close> of mailgun-sendmail stops at the dot: the stream it hands to the header
    parser is the field line \<open>Subject: hi\<close>, the empty line that ends the header, and
    the body \<open>hello\<close>; \<open>rest\<close> is left unread.
  \<^item> The loops of mailgun-mail under \<^verbatim>\<open>-t\<close> stop at the dot as well: the subject becomes
    \<open>hi\<close>, no recipient is added, the body is \<open>hello\<close> with its line break, and \<open>rest\<close>
    is left unread.
\<close>

theorem ingestion_stops_at_dot:
  "msgCopy True False
     \<lparr>pending = ''Subject: hi\<newline>\<newline>hello\<newline>.\<newline>'' @ rest, ending = e\<rparr>
     = Inr (fieldLine ''Subject'' ''hi'' @ [nl] @ ''hello\<newline>'', \<lparr>pending = rest, ending = e\<rparr>)
   \<and> ingest L True True
       \<lparr>c_to = rcpts, c_cc = ccs, c_bcc = bccs, c_subject = s0, c_body = [],
        c_in = \<lparr>pending = ''Subject: hi\<newline>\<newline>hello\<newline>.\<newline>'' @ rest, ending = e\<rparr>\<rparr>
     = Inr \<lparr>c_to = rcpts, c_cc = ccs, c_bcc = bccs, c_subject = ''hi'', c_body = ''hello\<newline>'',
            c_in = \<lparr>pending = rest, ending = e\<rparr>\<rparr>"
proof
  show "msgCopy True False
     \<lparr>pending = ''Subject: hi\<newline>\<newline>hello\<newline>.\<newline>'' @ rest, ending = e\<rparr>
     = Inr (fieldLine ''Subject'' ''hi'' @ [nl] @ ''hello\<newline>'', \<lparr>pending = rest, ending = e\<rparr>)"
    by (simp add: msgCopy_def msgCopyLoop.simps ReadBytes_def copyLine_def IndexByte_def
        fieldLine_def nl_def tab_def)
next
  show "ingest L True True
       \<lparr>c_to = rcpts, c_cc = ccs, c_bcc = bccs, c_subject = s0, c_body = [],
        c_in = \<lparr>pending = ''Subject: hi\<newline>\<newline>hello\<newline>.\<newline>'' @ rest, ending = e\<rparr>\<rparr>
     = Inr \<lparr>c_to = rcpts, c_cc = ccs, c_bcc = bccs, c_subject = ''hi'', c_body = ''hello\<newline>'',
            c_in = \<lparr>pending = rest, ending = e\<rparr>\<rparr>"
    by code_simp
qed

lemma ReadBytes_completeLine:
  assumes "completeLine l"
  shows "ReadBytes nl \<lparr>pending = l @ rest, ending = e\<rparr> = (l, None, \<lparr>pending = rest, ending = e\<rparr>)"
proof -
  from assms obtain l' where l: "l = l' @ [nl]" and no: "nl \<notin> set l'"
    by (metis append_butlast_last_id completeLine_def)
  from no have "takeWhile (\<lambda>c. c \<noteq> nl) (l' @ nl # rest) = l'"
    by (induction l') auto
  moreover from no have "dropWhile (\<lambda>c. c \<noteq> nl) (l' @ nl # rest) = nl # rest"
    by (induction l') auto
  ultimately show ?thesis
    using l by (simp add: ReadBytes_def)
qed

lemma ReadBytes_lastLine:
  assumes "nl \<notin> set l"
  shows "ReadBytes nl \<lparr>pending = l, ending = e\<rparr> = (l, Some e, \<lparr>pending = [], ending = e\<rparr>)"
  using assms by (simp add: ReadBytes_def)

lemma dotLine_iff:
  "(tty \<and> \<not> idot \<and> length l = 2 \<and> l ! 0 = CHR ''.'' \<and> l ! 1 = nl) = dotLine tty idot l"
proof -
  have "(length l = 2 \<and> l ! 0 = CHR ''.'' \<and> l ! 1 = nl) = (l = [CHR ''.'', nl])"
    by (cases l; cases "tl l"; auto)
  then show ?thesis
    by (auto simp: dotLine_def)
qed

text \<open>
  One turn of the loop, for a line that is not empty and not the terminating dot:
  the line is written, after a line break if it is the first line that does not look
  like a header line and is not the empty line, and followed by a line break if it
  has none.
\<close>

lemma msgCopyLoop_step:
  assumes "ReadBytes nl r = (l, err, r')" and "l \<noteq> []" and "\<not> dotLine tty idot l"
  shows "msgCopyLoop tty idot hdr w r
       = msgCopyLoop tty idot (hdr \<and> headerLike l)
           (w @ (if hdr \<and> \<not> headerLike l \<and> hd l \<noteq> nl then [nl] else []) @ l
              @ (if last l \<noteq> nl then [nl] else []))
           r'"
proof -
  have cl: "copyLine hdr w l =
      (hdr \<and> headerLike l,
       w @ (if hdr \<and> \<not> headerLike l \<and> hd l \<noteq> nl then [nl] else []) @ l
         @ (if last l \<noteq> nl then [nl] else []))"
    by (auto simp: copyLine_def headerLike_def IndexByte_def Let_def)
  show ?thesis
    apply (subst msgCopyLoop.simps)
    apply (simp only: assms(1) prod.case dotLine_iff)
    using assms(2,3) cl apply simp
    done
qed

lemma completeLine_blank: "completeLine l \<Longrightarrow> (hd l = nl) = (l = [nl])"
proof
  assume c: "completeLine l" and h: "hd l = nl"
  show "l = [nl]"
  proof (cases l)
    case Nil
    with c show ?thesis by (simp add: completeLine_def)
  next
    case (Cons a as)
    show ?thesis
    proof (cases as)
      case Nil
      with Cons h show ?thesis by simp
    next
      case (Cons b bs)
      with \<open>l = a # as\<close> h c show ?thesis
        by (auto simp: completeLine_def)
    qed
  qed
qed simp

lemma msgCopyLoop_line:
  assumes "completeLine l" and "\<not> dotLine tty idot l"
  shows "msgCopyLoop tty idot hdr w \<lparr>pending = l @ rest, ending = e\<rparr>
       = msgCopyLoop tty idot (hdr \<and> headerLike l)
           (w @ (if hdr \<and> \<not> headerLike l \<and> l \<noteq> [nl] then [nl] else []) @ l)
           \<lparr>pending = rest, ending = e\<rparr>"
proof -
  from assms(1) have "l \<noteq> []" and "last l = nl"
    by (auto simp: completeLine_def)
  with msgCopyLoop_step [OF ReadBytes_completeLine [OF assms(1)] _ assms(2)]
  show ?thesis
    by (simp add: completeLine_blank [OF assms(1)])
qed

lemma msgCopyLoop_lastLine:
  assumes "l \<noteq> []" and "nl \<notin> set l"
  shows "msgCopyLoop tty idot hdr w \<lparr>pending = l, ending = e\<rparr>
       = msgCopyLoop tty idot (hdr \<and> headerLike l)
           (w @ (if hdr \<and> \<not> headerLike l then [nl] else []) @ l @ [nl])
           \<lparr>pending = [], ending = e\<rparr>"
proof -
  from assms have "hd l \<noteq> nl"
    by (metis hd_in_set)
  moreover from assms have "last l \<noteq> nl"
    by (metis last_in_set)
  moreover from assms(2) have "\<not> dotLine tty idot l"
    by (auto simp: dotLine_def)
  ultimately show ?thesis
    using msgCopyLoop_step [OF ReadBytes_lastLine [OF assms(2)] assms(1)]
    by simp
qed

lemma msgCopyLoop_header_lines:
  assumes "\<forall>h \<in> set hs. completeLine h \<and> headerLike h \<and> \<not> dotLine tty idot h"
  shows "msgCopyLoop tty idot True w \<lparr>pending = concat hs @ rest, ending = e\<rparr>
       = msgCopyLoop tty idot True (w @ concat hs) \<lparr>pending = rest, ending = e\<rparr>"
  using assms
proof (induction hs arbitrary: w)
  case Nil
  then show ?case by simp
next
  case (Cons h hs)
  then have "msgCopyLoop tty idot True w \<lparr>pending = h @ concat hs @ rest, ending = e\<rparr>
      = msgCopyLoop tty idot True (w @ h) \<lparr>pending = concat hs @ rest, ending = e\<rparr>"
    by (simp add: msgCopyLoop_line)
  with Cons show ?case
    by simp
qed

lemma msgCopyLoop_extends:
  "msgCopyLoop tty idot hdr w r = Inr (out, r') \<Longrightarrow> \<exists>x. out = w @ x"
proof (induction "length (pending r)" arbitrary: hdr w r rule: less_induct)
  case less
  obtain line err r1 where rd: "ReadBytes nl r = (line, err, r1)"
    by (cases "ReadBytes nl r") auto
  obtain hdr' w' where cl: "copyLine hdr w line = (hdr', w')"
    by (cases "copyLine hdr w line") auto
  then have ext: "\<exists>y. w' = w @ y"
    by (auto simp: copyLine_def Let_def split: if_splits)
  show ?case
  proof (cases "line = [] \<or> (tty \<and> \<not> idot \<and> length line = 2 \<and> line ! 0 = CHR ''.'' \<and> line ! 1 = nl)")
    case True
    with less.prems rd show ?thesis
      by (subst (asm) msgCopyLoop.simps) (auto split: if_splits)
  next
    case False
    with less.prems rd cl have "msgCopyLoop tty idot hdr' w' r1 = Inr (out, r')"
      by (subst (asm) msgCopyLoop.simps) (auto split: if_splits)
    moreover from False rd have "length (pending r1) < length (pending r)"
      by (auto dest: ReadBytes_shorter)
    ultimately obtain x where "out = w' @ x"
      using less.hyps by blast
    with ext show ?thesis
      by auto
  qed
qed

text \<open>
  Claim C7. The input starts with the complete lines \<open>hs\<close>, all of which look like
  header lines, followed by a line \<open>l\<close> that neither starts with a space or a tab nor
  holds a colon; \<open>l\<close> is a complete line, or the last line of the input without its
  line break. None of these lines is the terminating dot, which would end the
  ingestion before the line is looked at. Then \<open>l\<close> ends the header block: the loop
  goes on with \<open>hdr\<close> false, having written the lines \<open>hs\<close> unchanged, then one line
  break if \<open>l\<close> is not itself the empty line, then \<open>l\<close> (and the line break it may
  lack). So whenever \<^verbatim>\<open>msgCopy\<close> returns, its output starts with these bytes; with no
  header line at all (\<open>hs\<close> empty) and \<open>l\<close> not the empty line, it starts with an empty
  line.
\<close>

theorem msgCopy_header_boundary:
  assumes "\<forall>h \<in> set hs. completeLine h \<and> headerLike h \<and> \<not> dotLine tty idot h"
    and "completeLine l \<or> (l \<noteq> [] \<and> nl \<notin> set l \<and> rest = [])"
    and "\<not> headerLike l" and "\<not> dotLine tty idot l"
  shows "msgCopy tty idot \<lparr>pending = concat hs @ l @ rest, ending = e\<rparr>
           = msgCopyLoop tty idot False
               (concat hs @ (if l = [nl] then [] else [nl]) @ l @ (if last l = nl then [] else [nl]))
               \<lparr>pending = rest, ending = e\<rparr>
       \<and> (\<forall>out r'. msgCopy tty idot \<lparr>pending = concat hs @ l @ rest, ending = e\<rparr> = Inr (out, r')
            \<longrightarrow> (\<exists>x. out = concat hs @ (if l = [nl] then [] else [nl]) @ l @ x))"
proof -
  let ?w = "concat hs @ (if l = [nl] then [] else [nl]) @ l @ (if last l = nl then [] else [nl])"
  have "msgCopy tty idot \<lparr>pending = concat hs @ l @ rest, ending = e\<rparr>
      = msgCopyLoop tty idot True (concat hs) \<lparr>pending = l @ rest, ending = e\<rparr>"
    using msgCopyLoop_header_lines [OF assms(1), of "[]" "l @ rest" e]
    by (simp add: msgCopy_def)
  also have "\<dots> = msgCopyLoop tty idot False ?w \<lparr>pending = rest, ending = e\<rparr>"
    using assms(2)
  proof
    assume c: "completeLine l"
    then have "last l = nl"
      by (simp add: completeLine_def)
    with c assms(3,4) show ?thesis
      by (simp add: msgCopyLoop_line)
  next
    assume u: "l \<noteq> [] \<and> nl \<notin> set l \<and> rest = []"
    then have n1: "last l \<noteq> nl"
      by (metis last_in_set)
    from u have n2: "l \<noteq> [nl]"
      by auto
    note nn = n1 n2
    from u have "msgCopyLoop tty idot True (concat hs) \<lparr>pending = l, ending = e\<rparr>
        = msgCopyLoop tty idot (True \<and> headerLike l)
            (concat hs @ (if True \<and> \<not> headerLike l then [nl] else []) @ l @ [nl])
            \<lparr>pending = [], ending = e\<rparr>"
      by (intro msgCopyLoop_lastLine) simp_all
    with u nn assms(3) show ?thesis
      by simp
  qed
  finally have eq: "msgCopy tty idot \<lparr>pending = concat hs @ l @ rest, ending = e\<rparr>
      = msgCopyLoop tty idot False ?w \<lparr>pending = rest, ending = e\<rparr>" .
  show ?thesis
  proof (intro conjI allI impI)
    show "msgCopy tty idot \<lparr>pending = concat hs @ l @ rest, ending = e\<rparr>
      = msgCopyLoop tty idot False ?w \<lparr>pending = rest, ending = e\<rparr>"
      by (rule eq)
  next
    fix out r'
    assume "msgCopy tty idot \<lparr>pending = concat hs @ l @ rest, ending = e\<rparr> = Inr (out, r')"
    with eq have "msgCopyLoop tty idot False ?w \<lparr>pending = rest, ending = e\<rparr> = Inr (out, r')"
      by simp
    then obtain x where "out = ?w @ x"
      using msgCopyLoop_extends by blast
    then show "\<exists>x. out = concat hs @ (if l = [nl] then [] else [nl]) @ l @ x"
      by auto
  qed
qed

theorem msgCopy_header_boundary_witness:
  "completeLine ''Subject: hi\<newline>'' \<and> headerLike ''Subject: hi\<newline>''
   \<and> \<not> dotLine True False ''Subject: hi\<newline>''
   \<and> completeLine ''hello world\<newline>'' \<and> \<not> headerLike ''hello world\<newline>''
   \<and> \<not> dotLine True False ''hello world\<newline>''
   \<and> msgCopy True False \<lparr>pending = ''Subject: hi\<newline>hello world\<newline>'', ending = EOF\<rparr>
       = Inr (''Subject: hi\<newline>\<newline>hello world\<newline>'', \<lparr>pending = [], ending = EOF\<rparr>)
   \<and> msgCopy True False \<lparr>pending = ''hello world\<newline>'', ending = EOF\<rparr>
       = Inr (''\<newline>hello world\<newline>'', \<lparr>pending = [], ending = EOF\<rparr>)"
proof -
  have h: "\<forall>h \<in> set [''Subject: hi\<newline>'']. completeLine h \<and> headerLike h \<and> \<not> dotLine True False h"
    by (simp add: completeLine_def headerLike_def dotLine_def nl_def)
  have none: "\<forall>h \<in> set ([] :: string list). completeLine h \<and> headerLike h \<and> \<not> dotLine True False h"
    by simp
  have l: "completeLine ''hello world\<newline>''" "\<not> headerLike ''hello world\<newline>''"
      "\<not> dotLine True False ''hello world\<newline>''"
    by (simp_all add: completeLine_def headerLike_def dotLine_def nl_def tab_def)
  from l(1) have l1: "completeLine ''hello world\<newline>''
      \<or> (''hello world\<newline>'' \<noteq> [] \<and> nl \<notin> set ''hello world\<newline>'' \<and> ([] :: string) = [])"
    by simp
  have stop: "\<And>w. msgCopyLoop True False False w \<lparr>pending = [], ending = EOF\<rparr>
      = Inr (w, \<lparr>pending = [], ending = EOF\<rparr>)"
    by (subst msgCopyLoop.simps) (simp add: ReadBytes_def)
  from msgCopy_header_boundary [OF h l1 l(2,3), of EOF]
    msgCopy_header_boundary [OF none l1 l(2,3), of EOF]
  show ?thesis
    using h l by (simp add: stop nl_def)
qed


section \<open>Properties of the header block of mailgun-sendmail\<close>

lemma sorted_keys: "sorted (sorted_list_of_fset S)"
  by (simp add: sorted_list_of_fset.rep_eq)

lemma distinct_keys: "distinct (sorted_list_of_fset S)"
  by (simp add: sorted_list_of_fset.rep_eq)

lemma renderHeader_lines:
  "renderHeader h = concat (map (\<lambda>(k, v). fieldLine k v) (headerLines h)) @ [nl]"
proof -
  have "\<And>ks. concat (map (\<lambda>k. concat (map (fieldLine k) (hvalues h k))) ks)
      = concat (map (\<lambda>(k, v). fieldLine k v) (concat (map (\<lambda>k. map (\<lambda>v. (k, v)) (hvalues h k)) ks)))"
  proof -
    fix ks show "concat (map (\<lambda>k. concat (map (fieldLine k) (hvalues h k))) ks)
      = concat (map (\<lambda>(k, v). fieldLine k v) (concat (map (\<lambda>k. map (\<lambda>v. (k, v)) (hvalues h k)) ks)))"
      by (induction ks) (simp_all add: comp_def)
  qed
  then show ?thesis
    by (simp add: renderHeader_def headerLines_def)
qed

lemma sorted_blocks:
  "sorted ks \<Longrightarrow> sorted (map fst (concat (map (\<lambda>k. map (\<lambda>v. (k, v)) (f k)) ks)))"
proof (induction ks)
  case Nil
  then show ?case by simp
next
  case (Cons k ks)
  then have "sorted (map fst (concat (map (\<lambda>k. map (\<lambda>v. (k, v)) (f k)) ks)))"
    by simp
  moreover have "\<forall>x \<in> set (map fst (map (\<lambda>v. (k, v)) (f k))). x = k"
    by auto
  moreover have "\<forall>y \<in> set (map fst (concat (map (\<lambda>k. map (\<lambda>v. (k, v)) (f k)) ks))). k \<le> y"
    using Cons.prems by auto
  moreover have "sorted (map fst (map (\<lambda>v. (k, v)) (f k)))"
    by (simp add: comp_def map_replicate_const)
  ultimately show ?case
    by (simp add: sorted_append comp_def)
qed

lemma headerLines_sorted: "sorted (map fst (headerLines h))"
  unfolding headerLines_def by (rule sorted_blocks) (rule sorted_keys)

lemma lines_of_key:
  "distinct ks \<Longrightarrow>
   map snd (filter (\<lambda>(k', v). k' = k) (concat (map (\<lambda>k. map (\<lambda>v. (k, v)) (f k)) ks)))
     = (if k \<in> set ks then f k else [])"
proof (induction ks)
  case Nil
  then show ?case by simp
next
  case (Cons a ks)
  have this_key: "map snd (filter (\<lambda>(k', v). k' = k) (map (\<lambda>v. (a, v)) (f a))) = (if a = k then f a else [])"
    by (induction "f a") (auto simp: filter_map comp_def)
  from Cons show ?case
    by (auto simp: this_key)
qed

lemma headerLines_of_key:
  "map snd (filter (\<lambda>(k', v). k' = k) (headerLines h)) = hvalues h k"
proof -
  have "k \<notin> fset (fmdom h) \<Longrightarrow> hvalues h k = []"
    by (auto simp: hvalues_def fmdom_notD split: option.splits)
  then show ?thesis
    unfolding headerLines_def
    by (subst lines_of_key) (auto simp: distinct_keys)
qed

lemma headerLines_keys: "(k, v) \<in> set (headerLines h) \<longleftrightarrow> v \<in> set (hvalues h k)"
proof -
  have "v \<in> set (hvalues h k) \<Longrightarrow> k \<in> fset (fmdom h)"
    by (cases "fmlookup h k") (auto simp: hvalues_def intro: fmdomI)
  then show ?thesis
    by (auto simp: headerLines_def)
qed

lemma outHeader_Bcc: "hvalues (outHeader L from h) ''Bcc'' = []"
  by (simp add: outHeader_def hvalues_def)

lemma outHeader_From:
  "hvalues (outHeader L from h) ''From''
     = (if hvalues h ''From'' = [] then [Address_String L from] else hvalues h ''From'')"
  by (simp add: outHeader_def hvalues_def)

lemma outHeader_other:
  "k \<noteq> ''Bcc'' \<Longrightarrow> k \<noteq> ''From'' \<Longrightarrow> hvalues (outHeader L from h) k = hvalues h k"
  by (simp add: outHeader_def hvalues_def)


lemma outHeader_values:
  "hvalues (outHeader L from h) k
     = (if k = ''Bcc'' then []
        else if k = ''From'' \<and> hvalues h ''From'' = [] then [Address_String L from]
        else hvalues h k)"
  by (simp add: outHeader_def hvalues_def)

lemma harvest_extends:
  "harvest L h keys rcpts = Inr rs \<Longrightarrow> set rcpts \<subseteq> set rs"
proof (induction keys arbitrary: rcpts)
  case Nil
  then show ?case by simp
next
  case (Cons key keys)
  show ?case
  proof (cases "hvalues h key = []")
    case True
    with Cons show ?thesis by simp
  next
    case False
    with Cons.prems obtain as where as: "Header_AddressList L h key = Inr as"
        and rec: "harvest L h keys (rcpts @ as) = Inr rs"
      by (auto split: sum.splits)
    from Cons.IH [OF rec] show ?thesis by simp
  qed
qed

lemma harvest_includes:
  "harvest L h keys rcpts = Inr rs \<Longrightarrow> key \<in> set keys \<Longrightarrow> hvalues h key \<noteq> [] \<Longrightarrow>
   \<exists>as. Header_AddressList L h key = Inr as \<and> set as \<subseteq> set rs"
proof (induction keys arbitrary: rcpts)
  case Nil
  then show ?case by simp
next
  case (Cons k keys)
  show ?case
  proof (cases "hvalues h k = []")
    case True
    with Cons.prems have "harvest L h keys rcpts = Inr rs" and "key \<in> set keys"
      by auto
    with Cons.IH Cons.prems(3) show ?thesis by blast
  next
    case False
    with Cons.prems(1) obtain as where as: "Header_AddressList L h k = Inr as"
        and rec: "harvest L h keys (rcpts @ as) = Inr rs"
      by (auto split: sum.splits)
    show ?thesis
    proof (cases "key = k")
      case True
      from harvest_extends [OF rec] have "set as \<subseteq> set rs" by simp
      with as True show ?thesis by simp
    next
      case False
      with Cons.prems(2) have "key \<in> set keys" by simp
      with Cons.IH [OF rec _ Cons.prems(3)] show ?thesis by blast
    qed
  qed
qed

lemma relay_Inr:
  assumes "relay L d t from rcpts h body = Inr p"
  obtains rs where "recipients L t h rcpts = Inr rs"
    and "p = MailMIME L d from rs (renderHeader (outHeader L from h) @ body)"
  using assms by (auto simp: relay_def split: sum.splits)

lemma MailMIME_parts:
  "post_parts (MailMIME L d from rs mime)
     = map (\<lambda>a. FormField ''to'' (Address_String L (FixLocalAddr d a))) rs
       @ [FormFile ''message'' ''mime.msg'' mime]"
  by (simp add: MailMIME_def FixLocalAddrs_def Let_def comp_def)

lemma MailMIME_to: "post_to (MailMIME L d from rs mime) = map (FixLocalAddr d) rs"
  by (simp add: MailMIME_def FixLocalAddrs_def Let_def)

lemma attach_files:
  "attach L fs files = Inr ps \<Longrightarrow> \<forall>x \<in> set ps. \<exists>n c. x = FormFile ''attachment'' n c"
proof (induction files arbitrary: ps)
  case Nil
  then show ?case by simp
next
  case (Cons f files)
  then show ?case
    by (auto split: sum.splits)
qed

lemma Mail_Inr:
  assumes "Mail L d fs msg = Inr q"
  obtains files where "attach L fs (Attachments msg) = Inr files"
    and "post_to q = map (FixLocalAddr d) (To msg) @ map (FixLocalAddr d) (CC msg)
                     @ map (FixLocalAddr d) (BCC msg)"
    and "post_parts q =
           [FormField ''from'' (Address_String L (FixLocalAddr d (From msg)))]
           @ map (\<lambda>a. FormField ''to'' (Address_String L (FixLocalAddr d a))) (To msg)
           @ map (\<lambda>a. FormField ''cc'' (Address_String L (FixLocalAddr d a))) (CC msg)
           @ map (\<lambda>a. FormField ''bcc'' (Address_String L (FixLocalAddr d a))) (BCC msg)
           @ (if Subject msg \<noteq> [] then [FormField ''subject'' (Subject msg)] else [])
           @ [FormField ''text'' (Body msg)]
           @ files"
  using assms by (auto simp: Mail_def FixLocalAddrs_def Let_def comp_def split: sum.splits)

text \<open>A successful run of either command goes through \<^verbatim>\<open>relay\<close> or \<^verbatim>\<open>Mail\<close>.\<close>

lemma sendmailFrom_fixed:
  "sendmailFrom P F = Inr from \<Longrightarrow> FixLocalAddr (Domain P) from = from"
  by (auto simp: sendmailFrom_def FixLocalAddr_idem split: if_splits)

lemma sendmail_main_relay:
  assumes "sendmail_main L P F = Inr (g, p)"
  shows "\<exists>rcpts from stream r h body.
           sendmailFrom P F = Inr from
         \<and> msgCopy (IsTTY P) (iflag F) (stdin P) = Inr (stream, r)
         \<and> mail_ReadMessage L stream = Inr (h, body)
         \<and> relay L (Domain P) (tflag F) from rcpts h body = Inr p"
  using assms by (auto simp: sendmail_main_def split: sum.splits if_splits prod.splits)

lemma mail_main_Mail:
  assumes "mail_main L P fs F = Inr (Some q)"
  shows "\<exists>msg. compose L P F = Inr (Some msg) \<and> Mail L (Domain P) fs msg = Inr q"
  using assms by (auto simp: mail_main_def split: sum.splits option.splits)

text \<open>The model run on the example values.\<close>

lemma example_relay:
  "relay exampleLib ''example.com'' True exampleFrom [] exampleHeader ''hello\<newline>''
     = Inr examplePost"
  by code_simp

lemma example_Mail:
  "Mail exampleLib ''example.com'' (\<lambda>f. Inl ''no such file'') exampleMessage
     = Inr \<lparr>post_from = exampleFrom,
            post_to = [\<lparr>Name = [], Address = ''bob@example.com''\<rparr>,
                       \<lparr>Name = [], Address = ''carol@example.com''\<rparr>],
            post_endpoint = ''https://api.mailgun.net/v3/example.com/messages'',
            post_parts = [FormField ''from'' ''<alice@example.com>'',
              FormField ''to'' ''<bob@example.com>'', FormField ''bcc'' ''<carol@example.com>'',
              FormField ''subject'' ''hi'', FormField ''text'' ''hello\<newline>'']\<rparr>"
  by code_simp

lemma example_headerLines:
  "headerLines (outHeader exampleLib exampleFrom exampleHeader)
     = [(''From'', ''<alice@example.com>''), (''To'', ''bob@example.com'')]"
  by code_simp

text \<open>
  Claim C1. In the raw path (\<^verbatim>\<open>relay\<close>, the part of \<^verbatim>\<open>main\<close> of mailgun-sendmail that
  follows the reading of the message) the header block sent has no field named \<open>Bcc\<close>
  (the keys of a header read by the library are in canonical form, so this is the
  one spelling of the name), and under \<^verbatim>\<open>-t\<close> the addresses of the \<open>Bcc\<close> field of the
  input are among the recipients: each is in the list passed to \<^verbatim>\<open>MailMIME\<close> and has its
  \<open>to\<close> form field. In the structured path (\<^verbatim>\<open>Mail\<close>) every address of the \<open>bcc\<close> list is
  among the recipients and has its \<open>bcc\<close> form field, and nothing but the form fields
  \<open>from\<close>, \<open>to\<close>, \<open>cc\<close>, \<open>bcc\<close>, \<open>subject\<close>, \<open>text\<close> and the attached files is sent: there
  is no header block.
\<close>

theorem bcc_only_in_recipients:
  assumes "relay L d t from rcpts h body = Inr p" and "Mail L d fs msg = Inr q"
  shows "(''Bcc'' \<notin> fst ` set (headerLines (outHeader L from h))
          \<and> last (post_parts p) = FormFile ''message'' ''mime.msg''
               (concat (map (\<lambda>(k, v). fieldLine k v) (headerLines (outHeader L from h))) @ [nl] @ body)
          \<and> (t \<and> hvalues h ''Bcc'' \<noteq> [] \<longrightarrow>
               (\<exists>bs. Header_AddressList L h ''Bcc'' = Inr bs \<and>
                  (\<forall>b \<in> set bs. FixLocalAddr d b \<in> set (post_to p) \<and>
                     FormField ''to'' (Address_String L (FixLocalAddr d b)) \<in> set (post_parts p)))))
       \<and> ((\<forall>b \<in> set (BCC msg). FixLocalAddr d b \<in> set (post_to q) \<and>
              FormField ''bcc'' (Address_String L (FixLocalAddr d b)) \<in> set (post_parts q))
          \<and> (\<forall>x \<in> set (post_parts q).
               (\<exists>n v. x = FormField n v \<and> n \<in> {''from'', ''to'', ''cc'', ''bcc'', ''subject'', ''text''})
               \<or> (\<exists>n c. x = FormFile ''attachment'' n c)))"
proof -
  from assms(1) obtain rs where rs: "recipients L t h rcpts = Inr rs"
      and p: "p = MailMIME L d from rs (renderHeader (outHeader L from h) @ body)"
    by (rule relay_Inr)
  have no_bcc: "''Bcc'' \<notin> fst ` set (headerLines (outHeader L from h))"
    by (auto simp: headerLines_keys outHeader_Bcc)
  have mime: "last (post_parts p) = FormFile ''message'' ''mime.msg''
      (concat (map (\<lambda>(k, v). fieldLine k v) (headerLines (outHeader L from h))) @ [nl] @ body)"
    by (simp add: p MailMIME_parts renderHeader_lines)
  have rcp: "\<exists>bs. Header_AddressList L h ''Bcc'' = Inr bs \<and>
      (\<forall>b \<in> set bs. FixLocalAddr d b \<in> set (post_to p) \<and>
         FormField ''to'' (Address_String L (FixLocalAddr d b)) \<in> set (post_parts p))"
    if t: t and bcc: "hvalues h ''Bcc'' \<noteq> []"
  proof -
    from rs t have "harvest L h [''To'', ''Cc'', ''Bcc''] rcpts = Inr rs"
      by (auto simp: recipients_def split: sum.splits if_splits)
    from harvest_includes [OF this _ bcc]
    obtain bs where bs: "Header_AddressList L h ''Bcc'' = Inr bs" "set bs \<subseteq> set rs"
      by auto
    then have "\<forall>b \<in> set bs. FixLocalAddr d b \<in> set (post_to p) \<and>
         FormField ''to'' (Address_String L (FixLocalAddr d b)) \<in> set (post_parts p)"
      by (auto simp: p MailMIME_parts MailMIME_to)
    with bs(1) show ?thesis by blast
  qed
  from assms(2) obtain files where files: "attach L fs (Attachments msg) = Inr files"
      and q_to: "post_to q = map (FixLocalAddr d) (To msg) @ map (FixLocalAddr d) (CC msg)
                     @ map (FixLocalAddr d) (BCC msg)"
      and q_parts: "post_parts q =
           [FormField ''from'' (Address_String L (FixLocalAddr d (From msg)))]
           @ map (\<lambda>a. FormField ''to'' (Address_String L (FixLocalAddr d a))) (To msg)
           @ map (\<lambda>a. FormField ''cc'' (Address_String L (FixLocalAddr d a))) (CC msg)
           @ map (\<lambda>a. FormField ''bcc'' (Address_String L (FixLocalAddr d a))) (BCC msg)
           @ (if Subject msg \<noteq> [] then [FormField ''subject'' (Subject msg)] else [])
           @ [FormField ''text'' (Body msg)]
           @ files"
    by (rule Mail_Inr)
  have bcc_fields: "\<forall>b \<in> set (BCC msg). FixLocalAddr d b \<in> set (post_to q) \<and>
              FormField ''bcc'' (Address_String L (FixLocalAddr d b)) \<in> set (post_parts q)"
    by (simp add: q_to q_parts)
  have shape: "\<forall>x \<in> set (post_parts q).
               (\<exists>n v. x = FormField n v \<and> n \<in> {''from'', ''to'', ''cc'', ''bcc'', ''subject'', ''text''})
               \<or> (\<exists>n c. x = FormFile ''attachment'' n c)"
    using attach_files [OF files] by (auto simp: q_parts)
  from no_bcc mime rcp bcc_fields shape show ?thesis
    by blast
qed

theorem bcc_only_in_recipients_witness:
  "relay exampleLib ''example.com'' True exampleFrom [] exampleHeader ''hello\<newline>''
     = Inr examplePost
   \<and> hvalues exampleHeader ''Bcc'' = [''carol'']
   \<and> ''Bcc'' \<notin> fst ` set (headerLines (outHeader exampleLib exampleFrom exampleHeader))
   \<and> last (post_parts examplePost) = FormFile ''message'' ''mime.msg''
        ''From: <alice@example.com>\<newline>To: bob@example.com\<newline>\<newline>hello\<newline>''
   \<and> FormField ''to'' ''<carol@example.com>'' \<in> set (post_parts examplePost)
   \<and> (\<exists>q. Mail exampleLib ''example.com'' (\<lambda>f. Inl ''no such file'') exampleMessage = Inr q
          \<and> FormField ''bcc'' ''<carol@example.com>'' \<in> set (post_parts q))"
proof -
  have bcc: "hvalues exampleHeader ''Bcc'' = [''carol'']"
    by (simp add: hvalues_def exampleHeader_def)
  have lst: "Header_AddressList exampleLib exampleHeader ''Bcc'' = Inr [\<lparr>Name = [], Address = ''carol''\<rparr>]"
    by (simp add: exampleLib_def bcc)
  have fx: "FixLocalAddr ''example.com'' \<lparr>Name = [], Address = ''carol''\<rparr>
      = \<lparr>Name = [], Address = ''carol@example.com''\<rparr>"
    by (simp add: FixLocalAddr_def HasPrefix_def)
  have str: "Address_String exampleLib \<lparr>Name = [], Address = ''carol@example.com''\<rparr> = ''<carol@example.com>''"
    by (simp add: exampleLib_def)
  have bccs: "BCC exampleMessage = [\<lparr>Name = [], Address = ''carol''\<rparr>]"
    by (simp add: exampleMessage_def)
  from bcc_only_in_recipients [OF example_relay example_Mail]
  show ?thesis
    by (simp add: example_relay example_Mail bcc lst fx str bccs example_headerLines
        examplePost_def fieldLine_def nl_def)
qed


text \<open>
  Claim C8. Whatever header the message read has, the fields of the header block
  sent by the raw path are in the order of their names, and the block is followed by
  one empty line and then the body.
\<close>

theorem relay_header_sorted:
  assumes "relay L d t from rcpts h body = Inr p"
  shows "sorted (map fst (headerLines (outHeader L from h)))
       \<and> last (post_parts p) = FormFile ''message'' ''mime.msg''
            (concat (map (\<lambda>(k, v). fieldLine k v) (headerLines (outHeader L from h))) @ [nl] @ body)"
proof -
  from assms obtain rs where "p = MailMIME L d from rs (renderHeader (outHeader L from h) @ body)"
    by (rule relay_Inr)
  then show ?thesis
    by (simp add: MailMIME_parts renderHeader_lines headerLines_sorted)
qed

theorem relay_header_sorted_witness:
  "relay exampleLib ''example.com'' True exampleFrom [] exampleHeader ''hello\<newline>''
     = Inr examplePost
   \<and> map fst (headerLines (outHeader exampleLib exampleFrom exampleHeader)) = [''From'', ''To'']
   \<and> sorted [''From'', ''To'']
   \<and> last (post_parts examplePost) = FormFile ''message'' ''mime.msg''
        (''From: <alice@example.com>\<newline>To: bob@example.com\<newline>'' @ ''\<newline>'' @ ''hello\<newline>'')"
  using relay_header_sorted [OF example_relay]
  by (simp add: example_relay example_headerLines fieldLine_def nl_def)

text \<open>
  Claim C9. The header block sent by the raw path is the header read, with two
  changes: there are no lines for \<open>Bcc\<close>, and when the header read has no \<open>From\<close>
  field there is one \<open>From\<close> line with the text of the sender. For every other name
  the lines are the values of the header read, in their order.
\<close>

theorem relay_header_frame:
  assumes "relay L d t from rcpts h body = Inr p"
  shows "last (post_parts p) = FormFile ''message'' ''mime.msg''
            (concat (map (\<lambda>(k, v). fieldLine k v) (headerLines (outHeader L from h))) @ [nl] @ body)
       \<and> (\<forall>k. map snd (filter (\<lambda>(k', v). k' = k) (headerLines (outHeader L from h)))
            = (if k = ''Bcc'' then []
               else if k = ''From'' \<and> hvalues h ''From'' = [] then [Address_String L from]
               else hvalues h k))"
proof -
  from assms obtain rs where "p = MailMIME L d from rs (renderHeader (outHeader L from h) @ body)"
    by (rule relay_Inr)
  then show ?thesis
    by (simp add: MailMIME_parts renderHeader_lines headerLines_of_key outHeader_values)
qed

theorem relay_header_frame_witness:
  "relay exampleLib ''example.com'' True exampleFrom [] exampleHeader ''hello\<newline>''
     = Inr examplePost
   \<and> hvalues exampleHeader ''From'' = []
   \<and> hvalues exampleHeader ''To'' = [''bob@example.com'']
   \<and> map snd (filter (\<lambda>(k', v). k' = ''Bcc'')
        (headerLines (outHeader exampleLib exampleFrom exampleHeader))) = []
   \<and> map snd (filter (\<lambda>(k', v). k' = ''From'')
        (headerLines (outHeader exampleLib exampleFrom exampleHeader))) = [''<alice@example.com>'']
   \<and> map snd (filter (\<lambda>(k', v). k' = ''To'')
        (headerLines (outHeader exampleLib exampleFrom exampleHeader))) = [''bob@example.com'']"
proof -
  have f: "hvalues exampleHeader ''From'' = []" and t: "hvalues exampleHeader ''To'' = [''bob@example.com'']"
    by (simp_all add: hvalues_def exampleHeader_def)
  have str: "Address_String exampleLib exampleFrom = ''<alice@example.com>''"
    by (simp add: exampleLib_def exampleFrom_def)
  from relay_header_frame [OF example_relay] show ?thesis
    by (simp add: example_relay f t str)
qed

section \<open>Properties of the HTTP exchange\<close>

lemma copyDiscard_drains: "copyDiscard s = s\<lparr>conduit := []\<rparr>"
proof (induction "conduit s" arbitrary: s)
  case Nil
  then have "conduit s = []" by simp
  then show ?case
    by (subst copyDiscard.simps) (simp add: bodyRead_def)
next
  case (Cons b bs)
  from Cons(2) have c: "conduit s = b # bs" by simp
  have "copyDiscard s = copyDiscard (s\<lparr>conduit := bs\<rparr>)"
    by (subst copyDiscard.simps) (simp add: bodyRead_def c)
  also have "\<dots> = (s\<lparr>conduit := bs\<rparr>)\<lparr>conduit := []\<rparr>"
    by (rule Cons(1)) simp
  finally show ?case by simp
qed

lemma readAllCounted_all:
  "readAllCounted acc s
     = (acc @ concat (conduit s),
        s\<lparr>conduit := [], total := total s + int (length (concat (conduit s)))\<rparr>)"
proof (induction "conduit s" arbitrary: s acc)
  case Nil
  then have "conduit s = []" by simp
  then show ?case
    by (subst readAllCounted.simps) (simp add: crRead_def bodyRead_def)
next
  case (Cons b bs)
  from Cons(2) have c: "conduit s = b # bs" by simp
  let ?s' = "s\<lparr>conduit := bs, total := total s + int (length b)\<rparr>"
  have "readAllCounted acc s = readAllCounted (acc @ b) ?s'"
    by (subst readAllCounted.simps) (simp add: crRead_def bodyRead_def c)
  also have "\<dots> = ((acc @ b) @ concat (conduit ?s'),
        ?s'\<lparr>conduit := [], total := total ?s' + int (length (concat (conduit ?s')))\<rparr>)"
    by (rule Cons(1)) simp
  finally show ?case
    by (simp add: c)
qed

text \<open>
  Claim C2, as stated: in the dry-run mode the byte counter equals the size of the
  payload. Without \<^verbatim>\<open>DebugHTTP\<close> it does not: \<^verbatim>\<open>runPost\<close> drains the pipe itself, not the
  counting reader around it, and for a payload of three bytes the counter stays at 0.
\<close>

theorem dry_run_counter_counterexample:
  "runPost \<lparr>DebugHTTP = False, DisableMail = True, Verbose = False\<rparr> exampleProcess exampleLib
     exampleWeb \<lparr>Name = [], Address = ''alice@example.com''\<rparr> [] ''https://api.mailgun.net/v3/example.com/messages''
     ''multipart/form-data'' [''abc'']
   = Inr \<lparr>run_total = 0, run_unread = [], run_calls = [],
          run_stderr = [''not sending mail (disabled)\<newline>''], run_log = []\<rparr>
   \<and> int (length (concat [''abc''])) \<noteq> 0"
  by (simp add: runPost_def exampleWeb_def copyDiscard_drains nl_def)

text \<open>
  Claim C2, amended. In the dry-run mode (the request is accepted and, with
  \<^verbatim>\<open>DebugHTTP\<close>, dumped without error) \<^verbatim>\<open>runPost\<close> sends nothing to the network, leaves
  nothing unread in the pipe, reports that sending is disabled and signals completion,
  and writes no log line. The drain does not go through the counting reader: the
  counter is 0 at the end, unless the dump of \<^verbatim>\<open>DebugHTTP\<close> has read the payload through
  it, and then it is the size of the payload.
\<close>

theorem dry_run_drains_uncounted:
  assumes "DisableMail G" and "http_NewRequest W endpoint = None"
    and "DebugHTTP G \<longrightarrow>
           (\<exists>dump. httputil_DumpRequest W (request P endpoint bodytype (concat blocks)) = Inr dump)"
  shows "\<exists>r. runPost G P L W from rcpts endpoint bodytype blocks = Inr r
           \<and> run_calls r = [] \<and> run_unread r = [] \<and> run_log r = []
           \<and> last (run_stderr r) = ''not sending mail (disabled)'' @ [nl]
           \<and> run_total r = (if DebugHTTP G then int (length (concat blocks)) else 0)"
proof (cases "DebugHTTP G")
  case True
  with assms(3) obtain dump
    where "httputil_DumpRequest W (request P endpoint bodytype (concat blocks)) = Inr dump"
    by blast
  with True assms(1,2) show ?thesis
    by (simp add: runPost_def request_def readAllCounted_all copyDiscard_drains Let_def)
next
  case False
  with assms(1,2) show ?thesis
    by (simp add: runPost_def copyDiscard_drains Let_def)
qed

theorem dry_run_drains_uncounted_witness:
  "runPost \<lparr>DebugHTTP = True, DisableMail = True, Verbose = False\<rparr> exampleProcess exampleLib
     exampleWeb exampleFrom [] ''https://api.mailgun.net/v3/example.com/messages''
     ''multipart/form-data'' [''ab'', ''c'']
   = Inr \<lparr>run_total = 3, run_unread = [], run_calls = [],
          run_stderr = [''abc'', ''not sending mail (disabled)\<newline>''], run_log = []\<rparr>"
proof -
  let ?G = "\<lparr>DebugHTTP = True, DisableMail = True, Verbose = False\<rparr>"
  have a: "DisableMail ?G" by simp
  have b: "http_NewRequest exampleWeb ''https://api.mailgun.net/v3/example.com/messages'' = None"
    by (simp add: exampleWeb_def)
  have c: "DebugHTTP ?G \<longrightarrow>
      (\<exists>dump. httputil_DumpRequest exampleWeb
         (request exampleProcess ''https://api.mailgun.net/v3/example.com/messages''
            ''multipart/form-data'' (concat [''ab'', ''c''])) = Inr dump)"
    by (simp add: exampleWeb_def)
  from dry_run_drains_uncounted [OF a b c, of exampleLib exampleFrom "[]"]
  show ?thesis
    by (simp add: runPost_def exampleWeb_def request_def readAllCounted_all copyDiscard_drains nl_def)
qed





end
